theory Spec2Isabelle
  imports Complex_Main "HOL-Library.Word" "HOL-Library.AList"
begin

unbundle bit_operations_syntax

section \<open>Numbers\<close>

text \<open>
  The export hub and the collection manager compute with JavaScript numbers, which are
  binary64 floating-point numbers. A number is modelled by the real number it denotes.
  An operation whose exact result need not be a binary64 number returns the binary64
  number nearest to it, and of two equally near the one whose significand is even:
  \<open>fl64\<close> is that rounding, to 53 significant bits. The exponent range of binary64 is not
  modelled (no overflow to infinity and no subnormal number): the quantities of the hub
  are far from both ends.

  \<open>rne\<close> is the integer nearest to a real number, a half going to the even neighbour, and
  \<open>ulp64 x\<close> is the distance of two neighbouring binary64 numbers in the binade of \<open>x\<close>.
\<close>

definition rne :: "real \<Rightarrow> int" where
  "rne y =
     (let f = \<lfloor>y\<rfloor>; d = y - of_int f
      in if d < 1 / 2 then f else if 1 / 2 < d then f + 1 else if even f then f else f + 1)"

definition ulp64 :: "real \<Rightarrow> real" where
  "ulp64 x = 2 powr real_of_int (\<lfloor>log 2 \<bar>x\<bar>\<rfloor> - 52)"

definition fl64 :: "real \<Rightarrow> real" where
  "fl64 x = (if x = 0 then 0 else real_of_int (rne (x / ulp64 x)) * ulp64 x)"

text \<open>
  A decimal literal of the source, such as \<^verbatim>\<open>0.88\<close>, is the binary64 number nearest to
  it, \<open>fl64 0.88\<close>. Byte sizes and pixel sizes are natural numbers and the progress
  counters are integers. An integer below \<open>2 ^ 53\<close> is a binary64 number, and a sum or a
  product of integers that stays below \<open>2 ^ 53\<close> is exact: such sums and products are
  written without rounding, and the byte sizes, the lengths of the arrays (which are below
  \<open>2 ^ 32\<close>) and the estimates are taken to be in that range.

  \<^verbatim>\<open>x ** y\<close>: ECMAScript asks for an approximation of the real power and leaves its
  precision to the implementation. It is taken here as the binary64 number nearest to the
  real power; the base is never negative in the hub.
\<close>

definition js_pow :: "real \<Rightarrow> real \<Rightarrow> real" where
  "js_pow x y = fl64 (x powr y)"

text \<open>
  \<^verbatim>\<open>Math.round(x)\<close> is the integer closest to \<open>x\<close>; of two integers equally close it is
  the one towards plus infinity.
\<close>

definition js_round :: "real \<Rightarrow> int" where
  "js_round x = (if x - of_int \<lfloor>x\<rfloor> < 1 / 2 then \<lfloor>x\<rfloor> else \<lfloor>x\<rfloor> + 1)"

text \<open>
  \<^verbatim>\<open>sum(arr)\<close> is \<^verbatim>\<open>arr.reduce((a, b) => a + b, 0)\<close>. On an array of integers no
  addition rounds, and the sum is \<open>sum_arr\<close>; on an array of fractions every addition
  rounds, and the sum is \<open>sum_f64\<close>.
\<close>

definition sum_arr :: "'a::monoid_add list \<Rightarrow> 'a" where
  "sum_arr arr = foldl (\<lambda>a b. a + b) 0 arr"

definition sum_f64 :: "real list \<Rightarrow> real" where
  "sum_f64 arr = foldl (\<lambda>a b. fl64 (a + b)) 0 arr"

text \<open>
  A record keyed by strings is a plain object, modelled by the map of its own properties.
  An assignment \<^verbatim>\<open>obj[k] = v\<close> creates or overwrites the own property \<open>k\<close>, except for
  the key \<^verbatim>\<open>__proto__\<close>: that is the accessor property of \<^verbatim>\<open>Object.prototype\<close>, whose
  setter ignores a value that is not an object, so that a boolean or a number assigned to
  it creates no own property. A computed key of an object literal, as in
  \<^verbatim>\<open>{ ...obj, [k]: v }\<close>, defines an own property for every key.

  A read \<^verbatim>\<open>obj[k]\<close> of a key that is no own property goes to \<^verbatim>\<open>Object.prototype\<close>.
  Its properties are the ones listed here, and the value of each is a function or an
  object, which counts as true in a condition; any other key gives \<^verbatim>\<open>undefined\<close>,
  which counts as false.
\<close>

definition Object_prototype_keys :: "string list" where
  "Object_prototype_keys =
     [''constructor'', ''hasOwnProperty'', ''isPrototypeOf'', ''propertyIsEnumerable'',
      ''toLocaleString'', ''toString'', ''valueOf'', ''__defineGetter__'',
      ''__defineSetter__'', ''__lookupGetter__'', ''__lookupSetter__'', ''__proto__'']"

definition obj_assign :: "string \<Rightarrow> 'v \<Rightarrow> (string \<rightharpoonup> 'v) \<Rightarrow> (string \<rightharpoonup> 'v)" where
  "obj_assign k v obj = (if k = ''__proto__'' then obj else obj(k \<mapsto> v))"

definition obj_truthy :: "(string \<rightharpoonup> bool) \<Rightarrow> string \<Rightarrow> bool" where
  "obj_truthy obj k = (case obj k of Some v \<Rightarrow> v | None \<Rightarrow> k \<in> set Object_prototype_keys)"

text \<open>
  The record of the progress counters is kept as the list of its own properties in the
  order in which they were created, with the same rule for an assignment.
  \<^verbatim>\<open>Object.keys\<close> lists the keys that are array indices first, in ascending order;
  the callback of a batch draws one random number for each key and adds the counters up,
  so that the order of the keys plays no part in what it computes.
\<close>

definition rec_assign :: "string \<Rightarrow> 'v \<Rightarrow> (string \<times> 'v) list \<Rightarrow> (string \<times> 'v) list" where
  "rec_assign k v obj = (if k = ''__proto__'' then obj else AList.update k v obj)"

section \<open>Export hub: data model\<close>

datatype PresetKey = Web | Mobile | Handoff

datatype ExportProfileKey = Preset PresetKey | Custom

datatype SvgOptimize = OptNone | Standard | Aggressive

datatype Background = Transparent | Light | Dark

datatype SpriteLayout = Horizontal | Vertical | Packed

datatype Framework = React | Vue | Svelte

record ExportItem =
  item_id :: string
  item_name :: string
  bytes :: nat
  tags :: "string list option"

record SvgFormat =
  svg_enabled :: bool
  optimize :: SvgOptimize
  stripFill :: bool

record PngFormat =
  png_enabled :: bool
  sizes :: "nat list"
  background :: Background

record IcoFormat =
  ico_enabled :: bool

record SpriteFormat =
  sprite_enabled :: bool
  layout :: SpriteLayout

record FontFormat =
  font_enabled :: bool
  includeLigatures :: bool

record ComponentsFormat =
  components_enabled :: bool
  targets :: "Framework list"

record ExportFormats =
  svg :: SvgFormat
  png :: PngFormat
  ico :: IcoFormat
  sprite :: SpriteFormat
  font :: FontFormat
  components :: ComponentsFormat

record Naming =
  pattern :: string
  lowercase :: bool

record ColorRow =
  token :: string
  hex :: string

record Delivery =
  apiEnabled :: bool
  apiBaseUrl :: "string option"
  apiToken :: "string option"
  cdnCacheSeconds :: "real option"

record WebhookEvents =
  ev_completed :: bool
  ev_failed :: bool

record Webhook =
  webhook_enabled :: bool
  url :: "string option"
  secret :: "string option"
  events :: WebhookEvents

record ExportHubState =
  profile :: ExportProfileKey
  formats :: ExportFormats
  naming :: Naming
  colorMappingEnabled :: bool
  colorMap :: "ColorRow list"
  delivery :: Delivery
  webhook :: Webhook
  selection :: "string \<rightharpoonup> bool"

section \<open>Size estimators\<close>

text \<open>
  Each product of an estimator is a binary64 product: the exact product of its two
  factors, rounded.
\<close>

definition estimatePerSvg :: "nat \<Rightarrow> SvgOptimize \<Rightarrow> int" where
  "estimatePerSvg b opt =
     (let factor = (if opt = Aggressive then fl64 0.78 else if opt = Standard then fl64 0.88 else 1)
      in max 350 (js_round (fl64 (real b * factor))))"

text \<open>
  \<^verbatim>\<open>bytes * scale * factor\<close> is \<^verbatim>\<open>(bytes * scale) * factor\<close>, with a rounding after each
  of the two products. A pixel size is a natural number, so the base of the power is never
  negative.
\<close>

definition estimatePerPng :: "nat \<Rightarrow> nat \<Rightarrow> int" where
  "estimatePerPng b sz =
     (let baseline = 24;
          scale = js_pow (fl64 (real sz / baseline)) (fl64 1.6);
          factor = fl64 1.15
      in max 900 (js_round (fl64 (fl64 (real b * scale) * factor))))"

definition estimateIco :: "nat \<Rightarrow> int" where
  "estimateIco b = max 3000 (js_round (fl64 (real b * fl64 0.65)) + 1024)"

definition estimateComponent :: "nat \<Rightarrow> int" where
  "estimateComponent b = max 220 (js_round (fl64 (real b * fl64 0.05)))"

section \<open>Aggregator\<close>

text \<open>
  \<^verbatim>\<open>selectedItems\<close> are the items for which \<^verbatim>\<open>state.selection[i.id]\<close> counts as true.
\<close>

definition selectedItems :: "ExportItem list \<Rightarrow> ExportHubState \<Rightarrow> ExportItem list" where
  "selectedItems its s = filter (\<lambda>i. obj_truthy (selection s) (item_id i)) its"

text \<open>
  The keys of \<^verbatim>\<open>perFormat\<close> are the labels \<^verbatim>\<open>"SVG"\<close>, \<^verbatim>\<open>"PNG xN"\<close>, \<^verbatim>\<open>"ICO"\<close>,
  \<^verbatim>\<open>"Sprite"\<close>, \<^verbatim>\<open>"Icon Font"\<close> and \<^verbatim>\<open>"Components xN"\<close>, with \<open>N\<close> the number of
  sizes or of frameworks; the record is an association list in insertion order.
\<close>

datatype FormatLabel =
  LabelSVG | LabelPNG nat | LabelICO | LabelSprite | LabelIconFont | LabelComponents nat

record Estimates =
  perFormat :: "(FormatLabel \<times> int) list"
  total :: int

definition svgBytes :: "ExportItem list \<Rightarrow> ExportFormats \<Rightarrow> int" where
  "svgBytes sel f = sum_arr (map (\<lambda>i. estimatePerSvg (bytes i) (optimize (svg f))) sel)"

definition pngBytes :: "ExportItem list \<Rightarrow> ExportFormats \<Rightarrow> int" where
  "pngBytes sel f =
     (let szs = sizes (png f)
      in sum_arr (map (\<lambda>i. sum_arr (map (\<lambda>s. estimatePerPng (bytes i) s) szs)) sel))"

definition icoBytes :: "ExportItem list \<Rightarrow> int" where
  "icoBytes sel = sum_arr (map (\<lambda>i. estimateIco (bytes i)) sel)"

definition spriteBytes :: "ExportItem list \<Rightarrow> int" where
  "spriteBytes sel =
     (let spriteOverhead = 5000
      in js_round
           (fl64 (sum_f64 (map (\<lambda>i. fl64 (real_of_int (estimatePerSvg (bytes i) Standard) * fl64 0.1))
                             sel)
                  + spriteOverhead)))"

definition fontBytes :: "ExportItem list \<Rightarrow> int" where
  "fontBytes sel =
     (let base = 30000;
          perIcon = int (length sel) * 600
      in base + perIcon)"

definition componentsBytes :: "ExportItem list \<Rightarrow> ExportFormats \<Rightarrow> int" where
  "componentsBytes sel f =
     (let frameworks = length (targets (components f))
      in int frameworks * sum_arr (map (\<lambda>i. estimateComponent (bytes i)) sel))"

text \<open>\<^verbatim>\<open>perFormat[label] = n; total += n\<close>\<close>

definition add_format :: "FormatLabel \<Rightarrow> int \<Rightarrow> Estimates \<Rightarrow> Estimates" where
  "add_format l n e = \<lparr>perFormat = AList.update l n (perFormat e), total = total e + n\<rparr>"

definition estimates :: "ExportItem list \<Rightarrow> ExportHubState \<Rightarrow> Estimates" where
  "estimates its s =
     (let sel = selectedItems its s;
          f = formats s;
          e0 = \<lparr>perFormat = [], total = 0\<rparr>;
          e1 = (if svg_enabled (svg f) then add_format LabelSVG (svgBytes sel f) e0 else e0);
          e2 = (if png_enabled (png f)
                then add_format (LabelPNG (length (sizes (png f)))) (pngBytes sel f) e1 else e1);
          e3 = (if ico_enabled (ico f) then add_format LabelICO (icoBytes sel) e2 else e2);
          e4 = (if sprite_enabled (sprite f) then add_format LabelSprite (spriteBytes sel) e3 else e3);
          e5 = (if font_enabled (font f) then add_format LabelIconFont (fontBytes sel) e4 else e4);
          e6 = (if components_enabled (components f)
                then add_format (LabelComponents (length (targets (components f))))
                       (componentsBytes sel f) e5
                else e5)
      in e6)"

definition mobileWarning :: "ExportItem list \<Rightarrow> ExportHubState \<Rightarrow> bool" where
  "mobileWarning its s =
     (let isMobile = (profile s = Preset Mobile);
          heavyPng = (png_enabled (png (formats s))
                      \<and> list_ex (\<lambda>sz. 128 \<le> sz) (sizes (png (formats s))));
          largeBundle = (500000 < total (estimates its s))
      in isMobile \<and> (heavyPng \<or> largeBundle))"

section \<open>Profile presets and configuration edits\<close>

definition DEFAULT_PNG_SIZES :: "nat list" where
  "DEFAULT_PNG_SIZES = [16, 24, 32, 48, 64]"

definition ALL_PNG_SIZES :: "nat list" where
  "ALL_PNG_SIZES = [16, 20, 24, 32, 48, 64, 96, 128, 256, 512]"

text \<open>
  A preset is a partial payload: each format may be absent, and so may the naming and each
  of its two fields.
\<close>

record NamingPartial =
  np_pattern :: "string option"
  np_lowercase :: "bool option"

record PresetPayload =
  p_svg :: "SvgFormat option"
  p_png :: "PngFormat option"
  p_ico :: "IcoFormat option"
  p_sprite :: "SpriteFormat option"
  p_font :: "FontFormat option"
  p_components :: "ComponentsFormat option"
  p_naming :: "NamingPartial option"

fun profilePresets :: "PresetKey \<Rightarrow> PresetPayload" where
  "profilePresets Web =
     \<lparr>p_svg = Some \<lparr>svg_enabled = True, optimize = Standard, stripFill = False\<rparr>,
      p_png = Some \<lparr>png_enabled = False, sizes = DEFAULT_PNG_SIZES, background = Transparent\<rparr>,
      p_ico = Some \<lparr>ico_enabled = False\<rparr>,
      p_sprite = Some \<lparr>sprite_enabled = True, layout = Packed\<rparr>,
      p_font = Some \<lparr>font_enabled = False, includeLigatures = False\<rparr>,
      p_components = Some \<lparr>components_enabled = True, targets = [React]\<rparr>,
      p_naming = Some \<lparr>np_pattern = Some ''{name}'', np_lowercase = Some True\<rparr>\<rparr>"
| "profilePresets Mobile =
     \<lparr>p_svg = Some \<lparr>svg_enabled = False, optimize = Standard, stripFill = False\<rparr>,
      p_png = Some \<lparr>png_enabled = True, sizes = [24, 48, 96, 128], background = Transparent\<rparr>,
      p_ico = Some \<lparr>ico_enabled = False\<rparr>,
      p_sprite = Some \<lparr>sprite_enabled = False, layout = Packed\<rparr>,
      p_font = Some \<lparr>font_enabled = False, includeLigatures = False\<rparr>,
      p_components = Some \<lparr>components_enabled = True, targets = [React]\<rparr>,
      p_naming = Some \<lparr>np_pattern = Some (''{name}@'' @ ''{size}''), np_lowercase = Some True\<rparr>\<rparr>"
| "profilePresets Handoff =
     \<lparr>p_svg = Some \<lparr>svg_enabled = True, optimize = OptNone, stripFill = False\<rparr>,
      p_png = Some \<lparr>png_enabled = True, sizes = map (\<lambda>x. x * 24) [1, 2, 3], background = Light\<rparr>,
      p_ico = Some \<lparr>ico_enabled = False\<rparr>,
      p_sprite = Some \<lparr>sprite_enabled = False, layout = Packed\<rparr>,
      p_font = Some \<lparr>font_enabled = False, includeLigatures = False\<rparr>,
      p_components = Some \<lparr>components_enabled = False, targets = []\<rparr>,
      p_naming = Some \<lparr>np_pattern = Some ''{name}-{size}-{theme}'', np_lowercase = Some False\<rparr>\<rparr>"

text \<open>
  The initial state of the hub, for a default profile and the items it is given: every item
  is selected.
\<close>

definition initialSelection :: "ExportItem list \<Rightarrow> (string \<rightharpoonup> bool)" where
  "initialSelection its = foldl (\<lambda>m i. obj_assign (item_id i) True m) Map.empty its"

definition initialState :: "ExportProfileKey \<Rightarrow> ExportItem list \<Rightarrow> ExportHubState" where
  "initialState defaultProfile its =
     \<lparr>profile = defaultProfile,
      formats =
        \<lparr>svg = \<lparr>svg_enabled = True, optimize = Standard, stripFill = False\<rparr>,
         png = \<lparr>png_enabled = False, sizes = DEFAULT_PNG_SIZES, background = Transparent\<rparr>,
         ico = \<lparr>ico_enabled = False\<rparr>,
         sprite = \<lparr>sprite_enabled = False, layout = Packed\<rparr>,
         font = \<lparr>font_enabled = False, includeLigatures = False\<rparr>,
         components = \<lparr>components_enabled = True, targets = [React]\<rparr>\<rparr>,
      naming = \<lparr>pattern = ''{name}'', lowercase = True\<rparr>,
      colorMappingEnabled = False,
      colorMap = [\<lparr>token = ''brand.primary'', hex = ''#ee5144''\<rparr>],
      delivery = \<lparr>apiEnabled = False, apiBaseUrl = Some [], apiToken = Some [],
                  cdnCacheSeconds = Some 3600\<rparr>,
      webhook = \<lparr>webhook_enabled = False, url = Some [], secret = Some [],
                 events = \<lparr>ev_completed = True, ev_failed = True\<rparr>\<rparr>,
      selection = initialSelection its\<rparr>"

text \<open>
  \<^verbatim>\<open>{ ...prev.formats.svg, ...preset.svg }\<close>: a format of the payload has all its fields, so
  the spread is that format; the naming is merged field by field.
\<close>

definition merge_format :: "'a \<Rightarrow> 'a option \<Rightarrow> 'a" where
  "merge_format prev p = (case p of Some x \<Rightarrow> x | None \<Rightarrow> prev)"

definition merge_naming :: "Naming \<Rightarrow> NamingPartial option \<Rightarrow> Naming" where
  "merge_naming prev p =
     (case p of
        None \<Rightarrow> prev
      | Some n \<Rightarrow>
          \<lparr>pattern = (case np_pattern n of Some x \<Rightarrow> x | None \<Rightarrow> pattern prev),
           lowercase = (case np_lowercase n of Some x \<Rightarrow> x | None \<Rightarrow> lowercase prev)\<rparr>)"

definition applyPayload :: "PresetKey \<Rightarrow> PresetPayload \<Rightarrow> ExportHubState \<Rightarrow> ExportHubState" where
  "applyPayload key preset prev =
     prev\<lparr>profile := Preset key,
          formats :=
            \<lparr>svg = merge_format (svg (formats prev)) (p_svg preset),
             png = merge_format (png (formats prev)) (p_png preset),
             ico = merge_format (ico (formats prev)) (p_ico preset),
             sprite = merge_format (sprite (formats prev)) (p_sprite preset),
             font = merge_format (font (formats prev)) (p_font preset),
             components = merge_format (components (formats prev)) (p_components preset)\<rparr>,
          naming := merge_naming (naming prev) (p_naming preset)\<rparr>"

definition applyPreset :: "PresetKey \<Rightarrow> ExportHubState \<Rightarrow> ExportHubState" where
  "applyPreset key prev = applyPayload key (profilePresets key) prev"

text \<open>
  A JavaScript \<^verbatim>\<open>Set\<close> keeps its members in insertion order: \<^verbatim>\<open>new Set(arr)\<close>,
  \<^verbatim>\<open>set.add(x)\<close> and \<^verbatim>\<open>set.delete(x)\<close> on the list of the members.
\<close>

definition set_add :: "'a \<Rightarrow> 'a list \<Rightarrow> 'a list" where
  "set_add x xs = (if x \<in> set xs then xs else xs @ [x])"

definition new_Set :: "'a list \<Rightarrow> 'a list" where
  "new_Set arr = foldl (\<lambda>acc x. set_add x acc) [] arr"

definition set_delete :: "'a \<Rightarrow> 'a list \<Rightarrow> 'a list" where
  "set_delete x xs = removeAll x xs"

definition toggleSize :: "nat \<Rightarrow> ExportHubState \<Rightarrow> ExportHubState" where
  "toggleSize sz prev =
     (let szs = new_Set (sizes (png (formats prev)));
          szs' = (if sz \<in> set szs then set_delete sz szs else set_add sz szs)
      in prev\<lparr>formats := (formats prev)\<lparr>png := (png (formats prev))\<lparr>sizes := sort szs'\<rparr>\<rparr>,
              profile := Custom\<rparr>)"

definition toggleTarget :: "Framework \<Rightarrow> ExportHubState \<Rightarrow> ExportHubState" where
  "toggleTarget fw prev =
     (let st = new_Set (targets (components (formats prev)));
          st' = (if fw \<in> set st then set_delete fw st else set_add fw st)
      in prev\<lparr>formats := (formats prev)\<lparr>components :=
                 (components (formats prev))\<lparr>targets := st'\<rparr>\<rparr>,
              profile := Custom\<rparr>)"

text \<open>
  The handlers of the custom tab that write a field of a format or of the naming, one
  constructor for each, with the value the control hands over.
\<close>

datatype ConfigEdit =
    SvgEnabled bool
  | SvgOptimizeLevel SvgOptimize
  | SvgStripFill bool
  | PngEnabled bool
  | PngBackground Background
  | PngToggleSize nat
  | IcoEnabled bool
  | SpriteEnabled bool
  | SpriteLayoutChoice SpriteLayout
  | FontEnabled bool
  | FontIncludeLigatures bool
  | ComponentsEnabled bool
  | ComponentsToggleTarget Framework
  | NamingPattern string
  | NamingLowercase bool

fun applyEdit :: "ConfigEdit \<Rightarrow> ExportHubState \<Rightarrow> ExportHubState" where
  "applyEdit (SvgEnabled v) prev =
     prev\<lparr>formats := (formats prev)\<lparr>svg := (svg (formats prev))\<lparr>svg_enabled := v\<rparr>\<rparr>,
          profile := Custom\<rparr>"
| "applyEdit (SvgOptimizeLevel v) prev =
     prev\<lparr>formats := (formats prev)\<lparr>svg := (svg (formats prev))\<lparr>optimize := v\<rparr>\<rparr>,
          profile := Custom\<rparr>"
| "applyEdit (SvgStripFill v) prev =
     prev\<lparr>formats := (formats prev)\<lparr>svg := (svg (formats prev))\<lparr>stripFill := v\<rparr>\<rparr>,
          profile := Custom\<rparr>"
| "applyEdit (PngEnabled v) prev =
     prev\<lparr>formats := (formats prev)\<lparr>png := (png (formats prev))\<lparr>png_enabled := v\<rparr>\<rparr>,
          profile := Custom\<rparr>"
| "applyEdit (PngBackground v) prev =
     prev\<lparr>formats := (formats prev)\<lparr>png := (png (formats prev))\<lparr>background := v\<rparr>\<rparr>,
          profile := Custom\<rparr>"
| "applyEdit (PngToggleSize sz) prev = toggleSize sz prev"
| "applyEdit (IcoEnabled v) prev =
     prev\<lparr>formats := (formats prev)\<lparr>ico := (ico (formats prev))\<lparr>ico_enabled := v\<rparr>\<rparr>,
          profile := Custom\<rparr>"
| "applyEdit (SpriteEnabled v) prev =
     prev\<lparr>formats := (formats prev)\<lparr>sprite := (sprite (formats prev))\<lparr>sprite_enabled := v\<rparr>\<rparr>,
          profile := Custom\<rparr>"
| "applyEdit (SpriteLayoutChoice v) prev =
     prev\<lparr>formats := (formats prev)\<lparr>sprite := (sprite (formats prev))\<lparr>layout := v\<rparr>\<rparr>,
          profile := Custom\<rparr>"
| "applyEdit (FontEnabled v) prev =
     prev\<lparr>formats := (formats prev)\<lparr>font := (font (formats prev))\<lparr>font_enabled := v\<rparr>\<rparr>,
          profile := Custom\<rparr>"
| "applyEdit (FontIncludeLigatures v) prev =
     prev\<lparr>formats := (formats prev)\<lparr>font := (font (formats prev))\<lparr>includeLigatures := v\<rparr>\<rparr>,
          profile := Custom\<rparr>"
| "applyEdit (ComponentsEnabled v) prev =
     prev\<lparr>formats := (formats prev)\<lparr>components :=
            (components (formats prev))\<lparr>components_enabled := v\<rparr>\<rparr>,
          profile := Custom\<rparr>"
| "applyEdit (ComponentsToggleTarget fw) prev = toggleTarget fw prev"
| "applyEdit (NamingPattern v) p = p\<lparr>naming := (naming p)\<lparr>pattern := v\<rparr>, profile := Custom\<rparr>"
| "applyEdit (NamingLowercase v) p = p\<lparr>naming := (naming p)\<lparr>lowercase := v\<rparr>, profile := Custom\<rparr>"

text \<open>
  The include switch of an item in the batch tab; the id is a computed key of an object
  literal.
\<close>

definition setIncluded :: "string \<Rightarrow> bool \<Rightarrow> ExportHubState \<Rightarrow> ExportHubState" where
  "setIncluded it_id v p = p\<lparr>selection := (selection p)(it_id \<mapsto> v), profile := Custom\<rparr>"

definition canExport :: "ExportItem list \<Rightarrow> ExportHubState \<Rightarrow> bool" where
  "canExport its s =
     (0 < length (selectedItems its s)
      \<and> (svg_enabled (svg (formats s)) \<or> png_enabled (png (formats s))
         \<or> ico_enabled (ico (formats s)) \<or> sprite_enabled (sprite (formats s))
         \<or> font_enabled (font (formats s))
         \<or> (components_enabled (components (formats s))
            \<and> 0 < length (targets (components (formats s))))))"

section \<open>Batch progress\<close>

text \<open>\<^verbatim>\<open>n.toString(radix)\<close> of a natural number, for a radix from 2 to 36.\<close>

definition digit_char :: "nat \<Rightarrow> char" where
  "digit_char d = ''0123456789abcdefghijklmnopqrstuvwxyz'' ! d"

function toStringRadix :: "nat \<Rightarrow> nat \<Rightarrow> string" where
  "toStringRadix r n =
     (if r < 2 \<or> n < r then [digit_char n]
      else toStringRadix r (n div r) @ [digit_char (n mod r)])"
  by pat_completeness auto
termination
  by (relation "measure (\<lambda>(r, n). n)") auto

record ExportConfig =
  cfg_profile :: ExportProfileKey
  cfg_formats :: ExportFormats
  cfg_naming :: Naming
  cfg_colorMappingEnabled :: bool
  cfg_colorMap :: "ColorRow list"
  cfg_delivery :: Delivery
  cfg_webhook :: Webhook
  cfg_selection :: "string list"

record ExportResult =
  batchId :: string
  success :: bool
  processedCount :: nat
  totalCount :: nat
  archiveSizeBytes :: int

text \<open>
  An interval timer of a batch, with what its callback has captured when the batch was
  started: the start time, the number of selected items and the total of the estimates.
\<close>

record BatchTimer =
  t_handle :: nat
  t_start :: nat
  t_total :: nat
  t_archive :: int

text \<open>
  The hub: its items, its configuration state, the three state variables of the batch, the
  live interval timers, and what it has handed to \<^verbatim>\<open>onExportStart\<close> and
  \<^verbatim>\<open>onExportComplete\<close> so far.
\<close>

record Hub =
  items :: "ExportItem list"
  state :: ExportHubState
  isExporting :: bool
  progressById :: "(string \<times> int) list"
  batchProgress :: int
  timers :: "BatchTimer list"
  nextHandle :: nat
  exportStarted :: "ExportConfig list"
  exportCompleted :: "ExportResult list"

datatype toast = ToastError string | ToastSuccess string

definition startExport :: "nat \<Rightarrow> Hub \<Rightarrow> toast + Hub" where
  "startExport now h =
     (let sel = selectedItems (items h) (state h);
          s = state h
      in if length sel = 0 then Inl (ToastError ''Select at least one item to export'')
         else
           let config =
                 \<lparr>cfg_profile = profile s, cfg_formats = formats s, cfg_naming = naming s,
                  cfg_colorMappingEnabled = colorMappingEnabled s, cfg_colorMap = colorMap s,
                  cfg_delivery = delivery s,
                  cfg_webhook =
                    (if webhook_enabled (webhook s)
                     then \<lparr>webhook_enabled = True, url = url (webhook s),
                           secret = secret (webhook s), events = events (webhook s)\<rparr>
                     else \<lparr>webhook_enabled = False, url = Some [], secret = Some [],
                           events = \<lparr>ev_completed = False, ev_failed = False\<rparr>\<rparr>),
                  cfg_selection = map item_id sel\<rparr>;
               initProgress = foldl (\<lambda>m i. rec_assign (item_id i) 0 m) [] sel;
               timer = \<lparr>t_handle = nextHandle h, t_start = now, t_total = length sel,
                        t_archive = total (estimates (items h) (state h))\<rparr>
           in Inr (h\<lparr>exportStarted := exportStarted h @ [config],
                     isExporting := True,
                     batchProgress := 0,
                     progressById := initProgress,
                     timers := timers h @ [timer],
                     nextHandle := Suc (nextHandle h)\<rparr>))"

text \<open>
  One run of the interval callback. \<open>rnd k\<close> is what \<^verbatim>\<open>Math.random()\<close> returns for the
  counter of the key \<open>k\<close> in this run, a binary64 number from 0 up to but not including 1;
  its product with 12 is rounded. A timer that has been cleared does not run.
\<close>

definition advance :: "(string \<Rightarrow> real) \<Rightarrow> (string \<times> int) list \<Rightarrow> (string \<times> int) list" where
  "advance rnd prev =
     map (\<lambda>(k, v). if v < 100
                    then (let step = 8 + js_round (fl64 (rnd k * 12)) in (k, min 100 (v + step)))
                    else (k, v)) prev"

text \<open>
  \<^verbatim>\<open>Math.round((sum(Object.values(next)) / (total * 100)) * 100)\<close>: the sum of the
  counters and \<^verbatim>\<open>total * 100\<close> are integers; the quotient is rounded, and so is its
  product with 100. A timer is created for a selection that is not empty, so that the
  divisor is not 0.
\<close>

definition overall_of :: "(string \<times> int) list \<Rightarrow> nat \<Rightarrow> int" where
  "overall_of next tot =
     js_round (fl64 (fl64 (real_of_int (sum_arr (map snd next)) / real (tot * 100)) * 100))"

definition tick :: "nat \<Rightarrow> (string \<Rightarrow> real) \<Rightarrow> Hub \<Rightarrow> Hub" where
  "tick hnd rnd h =
     (case find (\<lambda>t. t_handle t = hnd) (timers h) of
        None \<Rightarrow> h
      | Some t \<Rightarrow>
          let next = advance rnd (progressById h);
              overall = overall_of next (t_total t);
              h1 = h\<lparr>batchProgress := overall\<rparr>;
              h2 = (if 100 \<le> overall
                    then h1\<lparr>timers := filter (\<lambda>u. t_handle u \<noteq> hnd) (timers h1),
                            isExporting := False,
                            exportCompleted := exportCompleted h1 @
                              [\<lparr>batchId = ''batch_'' @ toStringRadix 10 (t_start t),
                                success = True,
                                processedCount = t_total t,
                                totalCount = t_total t,
                                archiveSizeBytes = t_archive t\<rparr>]\<rparr>
                    else h1)
          in h2\<lparr>progressById := next\<rparr>)"

definition resetProgress :: "Hub \<Rightarrow> Hub" where
  "resetProgress h = h\<lparr>isExporting := False, progressById := [], batchProgress := 0\<rparr>"

text \<open>The hub after the first \<open>n\<close> runs of the callback of a timer.\<close>

fun ticks :: "nat \<Rightarrow> (nat \<Rightarrow> string \<Rightarrow> real) \<Rightarrow> nat \<Rightarrow> Hub \<Rightarrow> Hub" where
  "ticks hnd rnd 0 h = h"
| "ticks hnd rnd (Suc n) h = tick hnd (rnd n) (ticks hnd rnd n h)"

text \<open>
  The hub when it is mounted: the initial values of its state variables, and the preset of
  the default profile applied unless that profile is custom.
\<close>

definition mountHub :: "ExportProfileKey \<Rightarrow> ExportItem list \<Rightarrow> Hub" where
  "mountHub defaultProfile its =
     \<lparr>items = its,
      state = (case defaultProfile of
                 Preset key \<Rightarrow> applyPreset key (initialState defaultProfile its)
               | Custom \<Rightarrow> initialState defaultProfile its),
      isExporting = False,
      progressById = [],
      batchProgress = 0,
      timers = [],
      nextHandle = 0,
      exportStarted = [],
      exportCompleted = []\<rparr>"

text \<open>
  The requirement on the formats in the words of the specification: some format is enabled
  with non-empty effective parameters, the sizes for PNG and the targets for components.
\<close>

definition spec_viable_format :: "ExportFormats \<Rightarrow> bool" where
  "spec_viable_format f =
     (svg_enabled (svg f)
      \<or> (png_enabled (png f) \<and> sizes (png f) \<noteq> [])
      \<or> ico_enabled (ico f)
      \<or> sprite_enabled (sprite f)
      \<or> font_enabled (font f)
      \<or> (components_enabled (components f) \<and> targets (components f) \<noteq> []))"

section \<open>The handlers of the configuration\<close>

text \<open>
  Every call of \<^verbatim>\<open>setState\<close> of the hub, as an action with the value that the control
  hands over: the three buttons that apply a preset, the edits of the formats and of the
  naming, the include switch, the controls of the colour mapping, the button that saves as
  custom, and the controls of the delivery and of the webhook. Only the last two groups
  leave the profile as it is.

  The handlers of the two switches of API delivery and of the webhook return early without
  the entitlement \<^verbatim>\<open>canUsePro\<close> or \<^verbatim>\<open>canUseTeams\<close>; the other inputs of these two tabs
  are disabled without it, and their handlers are taken as they are written. The controls
  of a row of the colour map exist for the rows of the list; \<^verbatim>\<open>splice(idx, 1)\<close> removes
  the row \<open>idx\<close>. \<^verbatim>\<open>Number(e.target.value)\<close> of a number input is the number typed in.
\<close>

datatype Action =
    ApplyPreset PresetKey
  | Edit ConfigEdit
  | Include string bool
  | ColorMappingEnabled bool
  | ColorToken nat string
  | ColorHex nat string
  | ColorRemove nat
  | ColorAdd
  | SaveAsCustom
  | ApiEnabled bool
  | ApiBaseUrl string
  | ApiToken string
  | CdnCacheSeconds real
  | WebhookEnabled bool
  | WebhookUrl string
  | WebhookSecret string
  | WebhookCompleted bool
  | WebhookFailed bool

fun act :: "bool \<Rightarrow> bool \<Rightarrow> Action \<Rightarrow> ExportHubState \<Rightarrow> ExportHubState" where
  "act canUsePro canUseTeams (ApplyPreset key) p = applyPreset key p"
| "act canUsePro canUseTeams (Edit e) p = applyEdit e p"
| "act canUsePro canUseTeams (Include k v) p = setIncluded k v p"
| "act canUsePro canUseTeams (ColorMappingEnabled v) p =
     p\<lparr>colorMappingEnabled := v, profile := Custom\<rparr>"
| "act canUsePro canUseTeams (ColorToken idx v) p =
     (if idx < length (colorMap p)
      then p\<lparr>colorMap := (colorMap p)[idx := (colorMap p ! idx)\<lparr>token := v\<rparr>], profile := Custom\<rparr>
      else p)"
| "act canUsePro canUseTeams (ColorHex idx v) p =
     (if idx < length (colorMap p)
      then p\<lparr>colorMap := (colorMap p)[idx := (colorMap p ! idx)\<lparr>hex := v\<rparr>], profile := Custom\<rparr>
      else p)"
| "act canUsePro canUseTeams (ColorRemove idx) p =
     p\<lparr>colorMap := take idx (colorMap p) @ drop (Suc idx) (colorMap p), profile := Custom\<rparr>"
| "act canUsePro canUseTeams ColorAdd p =
     p\<lparr>colorMap := colorMap p @ [\<lparr>token = [], hex = []\<rparr>], profile := Custom\<rparr>"
| "act canUsePro canUseTeams SaveAsCustom p = p\<lparr>profile := Custom\<rparr>"
| "act canUsePro canUseTeams (ApiEnabled v) p =
     (if \<not> canUsePro then p else p\<lparr>delivery := (delivery p)\<lparr>apiEnabled := v\<rparr>\<rparr>)"
| "act canUsePro canUseTeams (ApiBaseUrl v) p =
     p\<lparr>delivery := (delivery p)\<lparr>apiBaseUrl := Some v\<rparr>\<rparr>"
| "act canUsePro canUseTeams (ApiToken v) p =
     p\<lparr>delivery := (delivery p)\<lparr>apiToken := Some v\<rparr>\<rparr>"
| "act canUsePro canUseTeams (CdnCacheSeconds v) p =
     p\<lparr>delivery := (delivery p)\<lparr>cdnCacheSeconds := Some v\<rparr>\<rparr>"
| "act canUsePro canUseTeams (WebhookEnabled v) p =
     (if \<not> canUseTeams then p else p\<lparr>webhook := (webhook p)\<lparr>webhook_enabled := v\<rparr>\<rparr>)"
| "act canUsePro canUseTeams (WebhookUrl v) p =
     p\<lparr>webhook := (webhook p)\<lparr>url := Some v\<rparr>\<rparr>"
| "act canUsePro canUseTeams (WebhookSecret v) p =
     p\<lparr>webhook := (webhook p)\<lparr>secret := Some v\<rparr>\<rparr>"
| "act canUsePro canUseTeams (WebhookCompleted v) p =
     p\<lparr>webhook := (webhook p)\<lparr>events := (events (webhook p))\<lparr>ev_completed := v\<rparr>\<rparr>\<rparr>"
| "act canUsePro canUseTeams (WebhookFailed v) p =
     p\<lparr>webhook := (webhook p)\<lparr>events := (events (webhook p))\<lparr>ev_failed := v\<rparr>\<rparr>\<rparr>"

text \<open>
  The state after a sequence of actions, and the hub after it. The effect of the mount is
  the first action of a hub whose default profile is a preset.
\<close>

definition run :: "bool \<Rightarrow> bool \<Rightarrow> Action list \<Rightarrow> ExportHubState \<Rightarrow> ExportHubState" where
  "run canUsePro canUseTeams acts s = foldl (\<lambda>p a. act canUsePro canUseTeams a p) s acts"

definition dispatch :: "bool \<Rightarrow> bool \<Rightarrow> Action list \<Rightarrow> Hub \<Rightarrow> Hub" where
  "dispatch canUsePro canUseTeams acts h = h\<lparr>state := run canUsePro canUseTeams acts (state h)\<rparr>"

section \<open>Collection audit\<close>

text \<open>
  A JavaScript string is a sequence of 16-bit code units; \<^verbatim>\<open>charCodeAt\<close> reads one.
\<close>

type_synonym js_string = "16 word list"

definition utf16 :: "string \<Rightarrow> js_string" where
  "utf16 s = map (\<lambda>c. of_nat (of_char c)) s"

record IconItem =
  icon_id :: string
  icon_name :: string
  icon_svg :: js_string
  strokeWeight :: "real option"
  gridAligned :: "bool option"
  icon_tags :: "string list option"

record IconCollection =
  col_id :: string
  col_name :: string
  icons :: "IconItem list"
  shared :: "bool option"
  collaborators :: "string list option"
  updatedAt :: "string option"

record DuplicateGroup =
  dup_hash :: string
  dup_iconIds :: "string list"

record MixedStroke =
  targetWeight :: real
  ms_iconIds :: "string list"

record AuditResult =
  duplicates :: "DuplicateGroup list"
  mixedStroke :: "MixedStroke option"
  offGrid :: "string list"
  totalIssues :: int

text \<open>
  \<^verbatim>\<open>trim()\<close> removes the white space and the line terminators of ECMAScript from both
  ends.
\<close>

definition is_space :: "16 word \<Rightarrow> bool" where
  "is_space c =
     (c \<in> {0x09, 0x0A, 0x0B, 0x0C, 0x0D, 0x20, 0xA0, 0x1680}
      \<or> (0x2000 \<le> c \<and> c \<le> 0x200A)
      \<or> c \<in> {0x2028, 0x2029, 0x202F, 0x205F, 0x3000, 0xFEFF})"

definition trim :: "js_string \<Rightarrow> js_string" where
  "trim s = rev (dropWhile is_space (rev (dropWhile is_space s)))"

text \<open>
  \<^verbatim>\<open>h = (h << 5) - h + s.charCodeAt(i); h |= 0\<close> keeps \<open>h\<close> a signed 32-bit integer: the
  arithmetic is that of 32-bit words. The result is \<^verbatim>\<open>Math.abs(h).toString(36)\<close>.
\<close>

definition hashString :: "js_string \<Rightarrow> string" where
  "hashString s =
     (let h = foldl (\<lambda>h c. (push_bit 5 h - h + ucast c :: 32 word)) 0 s
      in toStringRadix 36 (nat \<bar>sint h\<bar>))"

definition iconKey :: "IconItem \<Rightarrow> string" where
  "iconKey icon = hashString (trim (icon_svg icon))"

text \<open>
  The \<^verbatim>\<open>Map\<close> from hash to icon ids, in insertion order: the ids of an icon are pushed
  to the array of its key.
\<close>

definition groupByHash :: "IconItem list \<Rightarrow> (string \<times> string list) list" where
  "groupByHash ics =
     foldl (\<lambda>m icon.
              let key = iconKey icon;
                  arr = (case map_of m key of Some a \<Rightarrow> a | None \<Rightarrow> [])
              in AList.update key (arr @ [icon_id icon]) m)
       [] ics"

text \<open>
  The frequency \<^verbatim>\<open>Map\<close> of the stroke weights, in insertion order, and the scan of its
  entries for the target weight, which starts from the first weight and the count 0.
\<close>

definition frequencies :: "real list \<Rightarrow> (real \<times> nat) list" where
  "frequencies weights =
     foldl (\<lambda>freq w. AList.update w ((case map_of freq w of Some c \<Rightarrow> c | None \<Rightarrow> 0) + 1) freq)
       [] weights"

definition pickTarget :: "real \<times> nat \<Rightarrow> (real \<times> nat) list \<Rightarrow> real \<times> nat" where
  "pickTarget init freq =
     foldl (\<lambda>(targetWeight, best) (w, c). if best < c then (w, c) else (targetWeight, best))
       init freq"

definition computeAudit :: "IconCollection \<Rightarrow> AuditResult" where
  "computeAudit collection =
     (let dups = filter (\<lambda>d. 1 < length (dup_iconIds d))
                   (map (\<lambda>(h, ids). \<lparr>dup_hash = h, dup_iconIds = ids\<rparr>)
                      (groupByHash (icons collection)));
          weights = List.map_filter strokeWeight (icons collection);
          ms = (case weights of
                  [] \<Rightarrow> None
                | w0 # _ \<Rightarrow>
                    let targetW = fst (pickTarget (w0, 0) (frequencies weights));
                        differing =
                          map icon_id
                            (filter (\<lambda>i. case strokeWeight i of
                                             Some w \<Rightarrow> w \<noteq> targetW
                                           | None \<Rightarrow> False)
                               (icons collection))
                    in if 0 < length differing
                       then Some \<lparr>targetWeight = targetW, ms_iconIds = differing\<rparr>
                       else None);
          og = map icon_id (filter (\<lambda>i. gridAligned i = Some False) (icons collection));
          tot = foldl (\<lambda>acc d. acc + (int (length (dup_iconIds d)) - 1)) 0 dups
                + (case ms of Some m \<Rightarrow> int (length (ms_iconIds m)) | None \<Rightarrow> 0)
                + int (length og)
      in \<lparr>duplicates = dups, mixedStroke = ms, offGrid = og, totalIssues = tot\<rparr>)"

section \<open>The audit in the words of the specification\<close>

text \<open>
  The members of the group of a hash; the modal weight of a non-empty list of weights, as
  the first weight, in iteration order, that no other weight outnumbers; the defined
  weights; and the outliers, as the icons whose defined weight differs from the mode.
\<close>

definition spec_members :: "string \<Rightarrow> IconCollection \<Rightarrow> string list" where
  "spec_members k c = map icon_id (filter (\<lambda>i. iconKey i = k) (icons c))"

definition spec_mode :: "real list \<Rightarrow> real" where
  "spec_mode ws = hd (filter (\<lambda>w. list_all (\<lambda>w'. count_list ws w' \<le> count_list ws w) ws) ws)"

definition spec_weights :: "IconCollection \<Rightarrow> real list" where
  "spec_weights c = concat (map (\<lambda>i. case strokeWeight i of Some w \<Rightarrow> [w] | None \<Rightarrow> []) (icons c))"

definition spec_outliers :: "IconCollection \<Rightarrow> string list" where
  "spec_outliers c =
     (if spec_weights c = [] then []
      else map icon_id
             (filter (\<lambda>i. case strokeWeight i of
                              Some w \<Rightarrow> w \<noteq> spec_mode (spec_weights c)
                            | None \<Rightarrow> False)
                (icons c)))"

section \<open>Properties of the binary64 rounding\<close>

lemma rne_error: "\<bar>real_of_int (rne y) - y\<bar> \<le> 1 / 2"
proof -
  have "real_of_int \<lfloor>y\<rfloor> \<le> y" "y < real_of_int \<lfloor>y\<rfloor> + 1"
    by linarith+
  then show ?thesis
    unfolding rne_def Let_def by (auto simp: abs_le_iff)
qed

lemma rne_of_int [simp]: "rne (real_of_int k) = k"
  by (simp add: rne_def)

lemma rne_ge: "real_of_int k \<le> y \<Longrightarrow> k \<le> rne y"
proof -
  assume "real_of_int k \<le> y"
  then have "k \<le> \<lfloor>y\<rfloor>" by (simp add: le_floor_iff)
  then show ?thesis unfolding rne_def Let_def by auto
qed

lemma rne_le: "y \<le> real_of_int k \<Longrightarrow> rne y \<le> k"
proof -
  assume a: "y \<le> real_of_int k"
  then have f: "\<lfloor>y\<rfloor> \<le> k" by (simp add: floor_le_iff)
  show ?thesis
  proof (cases "y = real_of_int \<lfloor>y\<rfloor>")
    case True
    then have "y - real_of_int \<lfloor>y\<rfloor> = 0" by simp
    then show ?thesis using f unfolding rne_def Let_def by simp
  next
    case False
    then have "real_of_int \<lfloor>y\<rfloor> < y" using of_int_floor_le[of y] by linarith
    then have "real_of_int \<lfloor>y\<rfloor> < real_of_int k" using a by linarith
    then have "\<lfloor>y\<rfloor> + 1 \<le> k" by simp
    then show ?thesis unfolding rne_def Let_def by auto
  qed
qed

lemma ulp64_pos: "0 < ulp64 x"
  by (simp add: ulp64_def)

lemma ulp64_le:
  assumes "x \<noteq> 0"
  shows "ulp64 x \<le> \<bar>x\<bar> / 2 ^ 52"
proof -
  have "(2::real) powr real_of_int \<lfloor>log 2 \<bar>x\<bar>\<rfloor> \<le> 2 powr log 2 \<bar>x\<bar>"
    by (intro powr_mono) auto
  also have "\<dots> = \<bar>x\<bar>"
    using assms by simp
  finally have "(2::real) powr real_of_int \<lfloor>log 2 \<bar>x\<bar>\<rfloor> \<le> \<bar>x\<bar>" .
  moreover have "ulp64 x = 2 powr real_of_int \<lfloor>log 2 \<bar>x\<bar>\<rfloor> / 2 ^ 52"
    by (simp add: ulp64_def powr_diff)
  ultimately show ?thesis
    by (simp add: divide_right_mono)
qed

lemma fl64_error: "\<bar>fl64 x - x\<bar> \<le> \<bar>x\<bar> / 2 ^ 53"
proof (cases "x = 0")
  case True
  then show ?thesis by (simp add: fl64_def)
next
  case False
  define s where "s = ulp64 x"
  have sp: "0 < s" by (simp add: s_def ulp64_pos)
  have "fl64 x - x = (real_of_int (rne (x / s)) - x / s) * s"
    using False sp by (simp add: fl64_def s_def[symmetric] algebra_simps)
  then have "\<bar>fl64 x - x\<bar> = \<bar>real_of_int (rne (x / s)) - x / s\<bar> * s"
    using sp by (simp add: abs_mult)
  also have "\<dots> \<le> 1 / 2 * s"
    using rne_error[of "x / s"] sp by (intro mult_right_mono) auto
  also have "\<dots> \<le> 1 / 2 * (\<bar>x\<bar> / 2 ^ 52)"
    using ulp64_le[OF False] by (simp add: s_def)
  finally show ?thesis by simp
qed

lemma fl64_zero [simp]: "fl64 0 = 0"
  by (simp add: fl64_def)

lemma fl64_nonneg: "0 \<le> x \<Longrightarrow> 0 \<le> fl64 x"
proof -
  assume a: "0 \<le> x"
  have "x / 2 ^ 53 \<le> x"
    using a by (simp add: field_simps)
  moreover have "\<bar>fl64 x - x\<bar> \<le> x / 2 ^ 53"
    using fl64_error[of x] a by simp
  ultimately show ?thesis
    by linarith
qed

lemma fl64_ge_grid:
  assumes "x \<noteq> 0" "r / ulp64 x \<in> \<int>" "r \<le> x"
  shows "r \<le> fl64 x"
proof -
  obtain k where k: "r / ulp64 x = real_of_int k"
    using assms(2) by (auto elim: Ints_cases)
  have "real_of_int k \<le> x / ulp64 x"
    using assms(3) ulp64_pos[of x] by (simp add: k[symmetric] divide_right_mono)
  then have "k \<le> rne (x / ulp64 x)"
    by (rule rne_ge)
  then have "real_of_int k * ulp64 x \<le> real_of_int (rne (x / ulp64 x)) * ulp64 x"
    using ulp64_pos[of x] by (simp add: mult_right_mono)
  moreover have "real_of_int k * ulp64 x = r"
    using ulp64_pos[of x] by (simp add: k[symmetric])
  ultimately show ?thesis
    using assms(1) by (simp add: fl64_def)
qed

lemma fl64_le_grid:
  assumes "x \<noteq> 0" "r / ulp64 x \<in> \<int>" "x \<le> r"
  shows "fl64 x \<le> r"
proof -
  obtain k where k: "r / ulp64 x = real_of_int k"
    using assms(2) by (auto elim: Ints_cases)
  have "x / ulp64 x \<le> real_of_int k"
    using assms(3) ulp64_pos[of x] by (simp add: k[symmetric] divide_right_mono)
  then have "rne (x / ulp64 x) \<le> k"
    by (rule rne_le)
  then have "real_of_int (rne (x / ulp64 x)) * ulp64 x \<le> real_of_int k * ulp64 x"
    using ulp64_pos[of x] by (simp add: mult_right_mono)
  moreover have "real_of_int k * ulp64 x = r"
    using ulp64_pos[of x] by (simp add: k[symmetric])
  ultimately show ?thesis
    using assms(1) by (simp add: fl64_def)
qed

lemma floor_log2_less:
  assumes "0 < x" "x < 2 ^ n"
  shows "\<lfloor>log 2 x\<rfloor> < int n"
proof -
  have "log 2 x < log 2 (2 ^ n)"
    using assms by (simp add: log_less_cancel_iff del: log_pow_cancel)
  then have "log 2 x < real n"
    by simp
  then show ?thesis
    by (simp add: floor_less_iff)
qed

lemma half_grid:
  assumes "x \<noteq> 0" "\<bar>x\<bar> < 2 ^ 52" "2 * r \<in> \<int>"
  shows "r / ulp64 x \<in> \<int>"
proof -
  define L where "L = \<lfloor>log 2 \<bar>x\<bar>\<rfloor>"
  have "L < 52"
    using floor_log2_less[of "\<bar>x\<bar>" 52] assms by (simp add: L_def)
  then have n: "0 \<le> 51 - L"
    by simp
  have "ulp64 x = 2 powr real_of_int (- (52 - L))"
    by (simp add: ulp64_def L_def)
  also have "\<dots> = inverse (2 powr real_of_int (52 - L))"
    by (simp only: of_int_minus powr_minus)
  also have "(2::real) powr real_of_int (52 - L) = 2 ^ nat (52 - L)"
    using n powr_real_of_int[of "2::real" "52 - L"] by auto
  also have "nat (52 - L) = Suc (nat (51 - L))"
    using n by simp
  finally have u: "ulp64 x = inverse (2 ^ Suc (nat (51 - L)))" .
  have "r / ulp64 x = (2 * r) * 2 ^ nat (51 - L)"
    unfolding u by (simp add: field_simps)
  then show ?thesis
    using assms(3) by simp
qed

lemma fl64_of_int:
  assumes "\<bar>n\<bar> < 2 ^ 53"
  shows "fl64 (real_of_int n) = real_of_int n"
proof (cases "n = 0")
  case True
  then show ?thesis by simp
next
  case False
  define x where "x = real_of_int n"
  define L where "L = \<lfloor>log 2 \<bar>x\<bar>\<rfloor>"
  have x0: "x \<noteq> 0" using False by (simp add: x_def)
  have "\<bar>x\<bar> < 2 ^ 53"
    using assms unfolding x_def by (metis of_int_abs of_int_less_numeral_power_cancel_iff)
  then have "L < 53"
    using floor_log2_less[of "\<bar>x\<bar>" 53] x0 by (simp add: L_def)
  then have n: "0 \<le> 52 - L"
    by simp
  have "ulp64 x = 2 powr real_of_int (- (52 - L))"
    by (simp add: ulp64_def L_def)
  also have "\<dots> = inverse (2 powr real_of_int (52 - L))"
    by (simp only: of_int_minus powr_minus)
  also have "(2::real) powr real_of_int (52 - L) = 2 ^ nat (52 - L)"
    using n powr_real_of_int[of "2::real" "52 - L"] by auto
  finally have u: "ulp64 x = inverse (2 ^ nat (52 - L))" .
  have "x / ulp64 x = real_of_int (n * 2 ^ nat (52 - L))"
    unfolding u by (simp add: field_simps x_def)
  then have g: "x / ulp64 x \<in> \<int>"
    by (simp only: Ints_of_int)
  have "x \<le> fl64 x" "fl64 x \<le> x"
    using fl64_ge_grid[OF x0 g] fl64_le_grid[OF x0 g] by simp_all
  then show ?thesis
    by (simp add: x_def)
qed

lemma fl64_eval:
  assumes "x \<noteq> 0" "2 powr real_of_int k \<le> \<bar>x\<bar>" "\<bar>x\<bar> < 2 powr real_of_int (k + 1)"
  shows "fl64 x = real_of_int (rne (x / 2 powr real_of_int (k - 52))) * 2 powr real_of_int (k - 52)"
proof -
  have "real_of_int k \<le> log 2 \<bar>x\<bar>"
    using assms by (simp add: le_log_iff)
  moreover have "log 2 \<bar>x\<bar> < real_of_int (k + 1)"
    using assms by (simp add: log_less_iff)
  ultimately have "\<lfloor>log 2 \<bar>x\<bar>\<rfloor> = k"
    by (intro floor_unique) auto
  then show ?thesis
    using assms(1) by (simp add: fl64_def ulp64_def)
qed

lemma two_powr_neg: "(2::real) powr real_of_int (- int m) = 1 / 2 ^ m"
proof -
  have "(2::real) powr real_of_int (- int m) = 2 powr (- real m)"
    by simp
  also have "\<dots> = inverse (2 powr real m)"
    by (rule powr_minus)
  also have "\<dots> = 1 / 2 ^ m"
    by (simp add: powr_realpow divide_inverse)
  finally show ?thesis .
qed

lemma fl64_eval_small:
  assumes "1 / 2 ^ Suc n \<le> x" "x < 1 / 2 ^ n"
  shows "fl64 x = real_of_int (rne (x * 2 ^ (n + 53))) / 2 ^ (n + 53)"
proof -
  have "(0::real) < 1 / 2 ^ Suc n"
    by simp
  then have x0: "0 < x"
    using assms(1) by linarith
  have a: "(2::real) powr real_of_int (- int (Suc n)) = 1 / 2 ^ Suc n"
    by (rule two_powr_neg)
  have "- int (Suc n) + 1 = - int n"
    by simp
  then have b: "(2::real) powr real_of_int (- int (Suc n) + 1) = 1 / 2 ^ n"
    by (simp only: two_powr_neg)
  have "- int (Suc n) - 52 = - int (n + 53)"
    by simp
  then have c: "(2::real) powr real_of_int (- int (Suc n) - 52) = 1 / 2 ^ (n + 53)"
    by (simp only: two_powr_neg)
  have "fl64 x = real_of_int (rne (x / 2 powr real_of_int (- int (Suc n) - 52)))
                 * 2 powr real_of_int (- int (Suc n) - 52)"
  proof (rule fl64_eval)
    show "x \<noteq> 0" using x0 by simp
    show "2 powr real_of_int (- int (Suc n)) \<le> \<bar>x\<bar>"
      using assms(1) x0 by (simp only: a abs_of_pos)
    show "\<bar>x\<bar> < 2 powr real_of_int (- int (Suc n) + 1)"
      using assms(2) x0 by (simp only: b abs_of_pos)
  qed
  then show ?thesis
    by (simp only: c) simp
qed

lemma fl64_eval_big:
  assumes "2 ^ n \<le> x" "x < 2 ^ Suc n" "n \<le> 52"
  shows "fl64 x = real_of_int (rne (x * 2 ^ (52 - n))) / 2 ^ (52 - n)"
proof -
  have "(0::real) < 2 ^ n"
    by simp
  then have x0: "0 < x"
    using assms(1) by linarith
  have a: "(2::real) powr real_of_int (int n) = 2 ^ n"
    by (simp add: powr_realpow)
  have "real_of_int (int n + 1) = real (Suc n)"
    by simp
  then have b: "(2::real) powr real_of_int (int n + 1) = 2 ^ Suc n"
    using powr_realpow[of "2::real" "Suc n"] by (simp del: power_Suc add: add.commute)
  have "int n - 52 = - int (52 - n)"
    using assms(3) by simp
  then have c: "(2::real) powr real_of_int (int n - 52) = 1 / 2 ^ (52 - n)"
    by (simp only: two_powr_neg)
  have "fl64 x = real_of_int (rne (x / 2 powr real_of_int (int n - 52)))
                 * 2 powr real_of_int (int n - 52)"
  proof (rule fl64_eval)
    show "x \<noteq> 0" using x0 by simp
    show "2 powr real_of_int (int n) \<le> \<bar>x\<bar>"
      using assms(1) x0 by (simp only: a abs_of_pos)
    show "\<bar>x\<bar> < 2 powr real_of_int (int n + 1)"
      using assms(2) x0 by (simp only: b abs_of_pos)
  qed
  then show ?thesis
    by (simp only: c) simp
qed

text \<open>The binary64 numbers of the literals of the estimators.\<close>

lemma fl64_one: "fl64 1 = 1"
  using fl64_of_int[of 1] by simp

lemma fl64_088: "fl64 (22 / 25) = 7926335344172073 / 2 ^ 53"
  using fl64_eval_small[of 0 "22 / 25"] by (simp add: rne_def)



lemma fl64_005: "fl64 (1 / 20) = 3602879701896397 / 2 ^ 56"
  using fl64_eval_small[of 4 "1 / 20"] by (simp add: rne_def)



lemma fl64_01: "fl64 (1 / 10) = 3602879701896397 / 2 ^ 55"
  using fl64_eval_small[of 3 "1 / 10"] by (simp add: rne_def)

section \<open>Properties of the estimators\<close>

lemma js_round_eq_round: "js_round x = round x"
proof -
  have "\<lfloor>x + 1 / 2\<rfloor> = (if x - of_int \<lfloor>x\<rfloor> < 1 / 2 then \<lfloor>x\<rfloor> else \<lfloor>x\<rfloor> + 1)"
    by (rule floor_unique) (auto simp: not_less, linarith+)
  then show ?thesis
    by (simp add: js_round_def round_def)
qed

lemma js_round_unique:
  assumes "real_of_int m - 1 / 2 \<le> v" "v < real_of_int m + 1 / 2"
  shows "js_round v = m"
proof -
  have "\<lfloor>v + 1 / 2\<rfloor> = m"
    using assms by (intro floor_unique) auto
  then show ?thesis
    by (simp add: js_round_eq_round round_def)
qed


text \<open>
  A product of a byte size with a literal of two decimals, whose binary64 number is not
  below the literal: the rounded product rounds to the same integer as the exact one.
\<close>

lemma round_product_exact:
  fixes b n :: nat and c' :: real
  assumes lo: "real n / 100 \<le> c'"
    and hi: "c' \<le> real n / 100 * (1 + 1 / 2 ^ 53)"
    and n: "0 < n" "n \<le> 100"
    and b: "b < 2 ^ 44"
  shows "js_round (fl64 (real b * c')) = round (real b * (real n / 100))"
proof (cases "b = 0")
  case True
  then show ?thesis
    by (simp add: js_round_def)
next
  case False
  define x where "x = real b * (real n / 100)"
  define y where "y = real b * c'"
  define m where "m = round x"
  have bpos: "0 < real b"
    using False by simp
  have bb: "real b < 2 ^ 44"
    using b by (simp add: of_nat_less_numeral_power_cancel_iff)
  have xpos: "0 < x"
    using bpos n by (simp add: x_def)
  have xb: "x \<le> real b"
  proof -
    have "real n / 100 \<le> 1"
      using n by simp
    then have "real b * (real n / 100) \<le> real b * 1"
      using bpos by (intro mult_left_mono) auto
    then show ?thesis
      by (simp add: x_def)
  qed
  have xy: "x \<le> y"
    unfolding x_def y_def using lo bpos by (intro mult_left_mono) auto
  have yx: "y \<le> x * (1 + 1 / 2 ^ 53)"
  proof -
    have "real b * c' \<le> real b * (real n / 100 * (1 + 1 / 2 ^ 53))"
      using hi bpos by (intro mult_left_mono) auto
    then show ?thesis
      by (simp add: x_def y_def algebra_simps)
  qed
  have m1: "real_of_int m - 1 / 2 \<le> x"
    unfolding m_def round_def by linarith
  have m2: "x < real_of_int m + 1 / 2"
    unfolding m_def round_def by linarith
  have hx: "100 * x = real_of_int (int (b * n))"
    by (simp add: x_def)
  have "real_of_int (int (b * n)) < real_of_int (100 * m + 50)"
    using m2 hx by simp
  then have "int (b * n) < 100 * m + 50"
    by (simp only: of_int_less_iff)
  then have "int (b * n) \<le> 100 * m + 49"
    by simp
  then have "real_of_int (int (b * n)) \<le> real_of_int (100 * m + 49)"
    by (simp only: of_int_le_iff)
  then have m3: "x \<le> real_of_int m + 49 / 100"
    using hx by simp
  have ypos: "0 < y"
    using xy xpos by linarith
  have ylt: "y < 2 ^ 52"
  proof -
    have "x * (1 + 1 / 2 ^ 53) \<le> x * 2"
      using xpos by (intro mult_left_mono) auto
    then show ?thesis
      using yx xb bb by simp
  qed
  have grid: "(real_of_int m - 1 / 2) / ulp64 y \<in> \<int>"
  proof (rule half_grid)
    show "y \<noteq> 0" using ypos by simp
    show "\<bar>y\<bar> < 2 ^ 52" using ypos ylt by simp
    have "2 * (real_of_int m - 1 / 2) = real_of_int (2 * m - 1)"
      by simp
    then show "2 * (real_of_int m - 1 / 2) \<in> \<int>"
      by (simp only: Ints_of_int)
  qed
  have lower: "real_of_int m - 1 / 2 \<le> fl64 y"
    using ypos grid m1 xy by (intro fl64_ge_grid) auto
  have "\<bar>fl64 y - y\<bar> \<le> y / 2 ^ 53"
    using fl64_error[of y] ypos by simp
  then have "fl64 y \<le> y + y / 2 ^ 53"
    by linarith
  also have "\<dots> = y * (1 + 1 / 2 ^ 53)"
    by (simp add: algebra_simps)
  also have "\<dots> \<le> x * (1 + 1 / 2 ^ 53) * (1 + 1 / 2 ^ 53)"
    using yx by (intro mult_right_mono) auto
  also have "\<dots> = x + x * (2 / 2 ^ 53 + 1 / 2 ^ 106)"
    by (simp add: algebra_simps)
  also have "\<dots> < x + 1 / 100"
  proof -
    have "x * (2 / 2 ^ 53 + 1 / 2 ^ 106) \<le> 2 ^ 44 * (2 / 2 ^ 53 + 1 / 2 ^ 106)"
      using xb bb by (intro mult_right_mono) auto
    also have "\<dots> < (1 / 100 :: real)"
      by simp
    finally show ?thesis
      by simp
  qed
  finally have upper: "fl64 y < real_of_int m + 1 / 2"
    using m3 by linarith
  have "js_round (fl64 y) = m"
    using lower upper by (rule js_round_unique)
  then show ?thesis
    by (simp add: y_def m_def x_def)
qed

lemma literal_above:
  assumes "c \<le> fl64 c" "0 \<le> c"
  shows "c \<le> fl64 c \<and> fl64 c \<le> c * (1 + 1 / 2 ^ 53)"
proof -
  have "\<bar>fl64 c - c\<bar> \<le> c / 2 ^ 53"
    using fl64_error[of c] assms(2) by simp
  then have "fl64 c \<le> c + c / 2 ^ 53"
    by linarith
  then show ?thesis
    using assms(1) by (simp add: algebra_simps)
qed

lemma svg_standard_exact:
  assumes "b < 2 ^ 44"
  shows "estimatePerSvg b Standard = max 350 (round (real b * 0.88))"
proof -
  have "(88 / 100 :: real) \<le> fl64 (88 / 100)"
    by (simp add: fl64_088)
  from literal_above[OF this]
  have "js_round (fl64 (real b * fl64 (88 / 100))) = round (real b * (real 88 / 100))"
    using assms by (intro round_product_exact) simp_all
  then show ?thesis
    by (simp add: estimatePerSvg_def)
qed




lemma component_exact:
  assumes "b < 2 ^ 44"
  shows "estimateComponent b = max 220 (round (real b * 0.05))"
proof -
  have "(5 / 100 :: real) \<le> fl64 (5 / 100)"
    by (simp add: fl64_005)
  from literal_above[OF this]
  have "js_round (fl64 (real b * fl64 (5 / 100))) = round (real b * (real 5 / 100))"
    using assms by (intro round_product_exact) simp_all
  then show ?thesis
    by (simp add: estimateComponent_def)
qed

lemma svg_1000_standard: "estimatePerSvg 1000 Standard = 880"
proof -
  have "estimatePerSvg 1000 Standard = max 350 (round (real 1000 * 0.88))"
    by (rule svg_standard_exact) simp
  then show ?thesis
    by (simp add: round_def)
qed

lemma component_1000: "estimateComponent 1000 = 220"
proof -
  have "estimateComponent 1000 = max 220 (round (real 1000 * 0.05))"
    by (rule component_exact) simp
  then show ?thesis
    by (simp add: round_def)
qed


















section \<open>Properties of the aggregator\<close>

lemma sum_arr_Nil: "sum_arr [] = 0"
  by (simp add: sum_arr_def)

lemma foldl_add_acc: "foldl (\<lambda>a b. a + b) (a::'a::monoid_add) xs = a + foldl (\<lambda>a b. a + b) 0 xs"
proof (induction xs arbitrary: a)
  case Nil
  then show ?case by simp
next
  case (Cons x xs)
  show ?case
    using Cons.IH[of "a + x"] Cons.IH[of "0 + x"] by (simp add: add.assoc)
qed

lemma sum_arr_eq_sum_list: "sum_arr xs = sum_list xs"
proof (induction xs)
  case Nil
  then show ?case by (simp add: sum_arr_def)
next
  case (Cons x xs)
  then show ?case
    using foldl_add_acc[of x xs] by (simp add: sum_arr_def)
qed

lemma total_add_format: "total (add_format l n e) = total e + n"
  by (simp add: add_format_def)

lemma estimates_total:
  "total (estimates its s) =
     (if svg_enabled (svg (formats s)) then svgBytes (selectedItems its s) (formats s) else 0)
   + (if png_enabled (png (formats s)) then pngBytes (selectedItems its s) (formats s) else 0)
   + (if ico_enabled (ico (formats s)) then icoBytes (selectedItems its s) else 0)
   + (if sprite_enabled (sprite (formats s)) then spriteBytes (selectedItems its s) else 0)
   + (if font_enabled (font (formats s)) then fontBytes (selectedItems its s) else 0)
   + (if components_enabled (components (formats s))
      then componentsBytes (selectedItems its s) (formats s) else 0)"
  by (simp add: estimates_def Let_def total_add_format)

lemma estimates_perFormat:
  "perFormat (estimates its s) =
     (if svg_enabled (svg (formats s))
      then [(LabelSVG, svgBytes (selectedItems its s) (formats s))] else [])
   @ (if png_enabled (png (formats s))
      then [(LabelPNG (length (sizes (png (formats s)))), pngBytes (selectedItems its s) (formats s))]
      else [])
   @ (if ico_enabled (ico (formats s)) then [(LabelICO, icoBytes (selectedItems its s))] else [])
   @ (if sprite_enabled (sprite (formats s))
      then [(LabelSprite, spriteBytes (selectedItems its s))] else [])
   @ (if font_enabled (font (formats s))
      then [(LabelIconFont, fontBytes (selectedItems its s))] else [])
   @ (if components_enabled (components (formats s))
      then [(LabelComponents (length (targets (components (formats s)))),
             componentsBytes (selectedItems its s) (formats s))]
      else [])"
  by (simp add: estimates_def Let_def add_format_def)

lemma fl64_5000: "fl64 5000 = 5000"
  using fl64_of_int[of 5000] by simp

lemma empty_parts:
  "svgBytes [] f = 0" "pngBytes [] f = 0" "icoBytes [] = 0" "spriteBytes [] = 5000"
  "fontBytes [] = 30000" "componentsBytes [] f = 0"
  by (simp_all add: svgBytes_def pngBytes_def icoBytes_def spriteBytes_def fontBytes_def
      componentsBytes_def sum_arr_def sum_f64_def fl64_5000 js_round_def)

text \<open>
  C2 (as amended). For an empty selection, the formats estimated asset by asset (SVG, PNG,
  ICO, components) are reported with 0 bytes when they are enabled, the sprite sheet with
  its overhead of 5000 bytes and the icon font with its base of 30000 bytes; the total is
  the sum of these two for the ones enabled; and the warning is raised exactly when the
  profile is mobile and PNG is enabled with a size of 128 or more.
\<close>

theorem estimates_empty_selection:
  assumes "selectedItems its s = []"
  shows "perFormat (estimates its s) =
           (if svg_enabled (svg (formats s)) then [(LabelSVG, 0)] else [])
         @ (if png_enabled (png (formats s))
            then [(LabelPNG (length (sizes (png (formats s)))), 0)] else [])
         @ (if ico_enabled (ico (formats s)) then [(LabelICO, 0)] else [])
         @ (if sprite_enabled (sprite (formats s)) then [(LabelSprite, 5000)] else [])
         @ (if font_enabled (font (formats s)) then [(LabelIconFont, 30000)] else [])
         @ (if components_enabled (components (formats s))
            then [(LabelComponents (length (targets (components (formats s)))), 0)] else [])
       \<and> total (estimates its s) =
           (if sprite_enabled (sprite (formats s)) then 5000 else 0)
         + (if font_enabled (font (formats s)) then 30000 else 0)
       \<and> mobileWarning its s =
           (profile s = Preset Mobile \<and> png_enabled (png (formats s))
            \<and> list_ex (\<lambda>sz. 128 \<le> sz) (sizes (png (formats s))))"
proof -
  have t: "total (estimates its s) =
           (if sprite_enabled (sprite (formats s)) then 5000 else 0)
         + (if font_enabled (font (formats s)) then 30000 else 0)"
    by (simp add: estimates_total assms empty_parts)
  have p: "perFormat (estimates its s) =
           (if svg_enabled (svg (formats s)) then [(LabelSVG, 0)] else [])
         @ (if png_enabled (png (formats s))
            then [(LabelPNG (length (sizes (png (formats s)))), 0)] else [])
         @ (if ico_enabled (ico (formats s)) then [(LabelICO, 0)] else [])
         @ (if sprite_enabled (sprite (formats s)) then [(LabelSprite, 5000)] else [])
         @ (if font_enabled (font (formats s)) then [(LabelIconFont, 30000)] else [])
         @ (if components_enabled (components (formats s))
            then [(LabelComponents (length (targets (components (formats s)))), 0)] else [])"
    by (simp add: estimates_perFormat assms empty_parts)
  have "\<not> 500000 < total (estimates its s)"
    unfolding t by simp
  then have w: "mobileWarning its s =
           (profile s = Preset Mobile \<and> png_enabled (png (formats s))
            \<and> list_ex (\<lambda>sz. 128 \<le> sz) (sizes (png (formats s))))"
    by (simp add: mobileWarning_def Let_def)
  from p t w show ?thesis
    by blast
qed

lemma web_state:
  "formats (applyPreset Web (initialState (Preset Web) [])) =
     \<lparr>svg = \<lparr>svg_enabled = True, optimize = Standard, stripFill = False\<rparr>,
      png = \<lparr>png_enabled = False, sizes = DEFAULT_PNG_SIZES, background = Transparent\<rparr>,
      ico = \<lparr>ico_enabled = False\<rparr>,
      sprite = \<lparr>sprite_enabled = True, layout = Packed\<rparr>,
      font = \<lparr>font_enabled = False, includeLigatures = False\<rparr>,
      components = \<lparr>components_enabled = True, targets = [React]\<rparr>\<rparr>"
  by (simp add: applyPreset_def applyPayload_def initialState_def merge_format_def)

theorem estimates_empty_selection_witness:
  "selectedItems [] (applyPreset Web (initialState (Preset Web) [])) = []
   \<and> perFormat (estimates [] (applyPreset Web (initialState (Preset Web) []))) =
       [(LabelSVG, 0), (LabelSprite, 5000), (LabelComponents 1, 0)]
   \<and> total (estimates [] (applyPreset Web (initialState (Preset Web) []))) = 5000
   \<and> \<not> mobileWarning [] (applyPreset Web (initialState (Preset Web) []))"
proof -
  have h: "selectedItems [] (applyPreset Web (initialState (Preset Web) [])) = []"
    by (simp add: selectedItems_def)
  have "profile (applyPreset Web (initialState (Preset Web) [])) = Preset Web"
    by (simp add: applyPreset_def applyPayload_def)
  then show ?thesis
    using h estimates_empty_selection[OF h] by (simp add: web_state)
qed

theorem empty_selection_counterexample:
  "selectedItems [] (applyPreset Web (initialState (Preset Web) [])) = []
   \<and> map_of (perFormat (estimates [] (applyPreset Web (initialState (Preset Web) [])))) LabelSprite
       = Some 5000
   \<and> total (estimates [] (applyPreset Web (initialState (Preset Web) []))) = 5000
   \<and> selectedItems [] (applyPreset Mobile (initialState (Preset Web) [])) = []
   \<and> mobileWarning [] (applyPreset Mobile (initialState (Preset Web) []))"
  by (simp add: selectedItems_def estimates_total estimates_perFormat empty_parts mobileWarning_def
      web_state applyPreset_def applyPayload_def initialState_def merge_format_def)

lemma map_of_perFormat_components:
  assumes "components_enabled (components (formats s))"
  shows "map_of (perFormat (estimates its s)) (LabelComponents (length (targets (components (formats s)))))
         = Some (componentsBytes (selectedItems its s) (formats s))"
  using assms by (simp add: estimates_perFormat)

text \<open>
  C9. When the components format is enabled, it is reported under the label that counts
  the framework targets with the number of targets times the sum of the component-wrapper
  estimates of the selected assets, and the total is the total without components plus
  that product. With no target the contribution is 0 bytes, whatever the assets.
\<close>

theorem components_contribution:
  assumes "components_enabled (components (formats s))"
  shows "map_of (perFormat (estimates its s))
           (LabelComponents (length (targets (components (formats s)))))
         = Some (int (length (targets (components (formats s))))
                 * sum_list (map (\<lambda>i. estimateComponent (bytes i)) (selectedItems its s)))
       \<and> total (estimates its s) =
           total (estimates its
             (s\<lparr>formats := (formats s)\<lparr>components :=
                  (components (formats s))\<lparr>components_enabled := False\<rparr>\<rparr>\<rparr>))
           + int (length (targets (components (formats s))))
             * sum_list (map (\<lambda>i. estimateComponent (bytes i)) (selectedItems its s))
       \<and> (targets (components (formats s)) = [] \<longrightarrow>
            map_of (perFormat (estimates its s)) (LabelComponents 0) = Some 0
          \<and> total (estimates its s) =
              total (estimates its
                (s\<lparr>formats := (formats s)\<lparr>components :=
                     (components (formats s))\<lparr>components_enabled := False\<rparr>\<rparr>\<rparr>)))"
proof -
  let ?off = "s\<lparr>formats := (formats s)\<lparr>components :=
                  (components (formats s))\<lparr>components_enabled := False\<rparr>\<rparr>\<rparr>"
  let ?c = "int (length (targets (components (formats s))))
            * sum_list (map (\<lambda>i. estimateComponent (bytes i)) (selectedItems its s))"
  have sel: "selectedItems its ?off = selectedItems its s"
    by (simp add: selectedItems_def)
  have cb: "componentsBytes (selectedItems its s) (formats s) = ?c"
    by (simp add: componentsBytes_def Let_def sum_arr_eq_sum_list)
  have m: "map_of (perFormat (estimates its s))
             (LabelComponents (length (targets (components (formats s))))) = Some ?c"
    using map_of_perFormat_components[OF assms, of its] cb by simp
  have t: "total (estimates its s) = total (estimates its ?off) + ?c"
    using assms cb
    by (simp add: estimates_total sel svgBytes_def pngBytes_def)
  show ?thesis
  proof (intro conjI impI)
    show "map_of (perFormat (estimates its s))
            (LabelComponents (length (targets (components (formats s))))) = Some ?c"
      by (rule m)
    show "total (estimates its s) = total (estimates its ?off) + ?c"
      by (rule t)
    show "map_of (perFormat (estimates its s)) (LabelComponents 0) = Some 0"
      if "targets (components (formats s)) = []"
      using m that by simp
    show "total (estimates its s) = total (estimates its ?off)"
      if "targets (components (formats s)) = []"
      using t that by simp
  qed
qed

theorem components_contribution_witness:
  "components_enabled (components (formats (toggleTarget React (initialState (Preset Web)
       [\<lparr>item_id = ''a'', item_name = ''arrow'', bytes = 1000, tags = None\<rparr>]))))
   \<and> targets (components (formats (toggleTarget React (initialState (Preset Web)
       [\<lparr>item_id = ''a'', item_name = ''arrow'', bytes = 1000, tags = None\<rparr>])))) = []
   \<and> estimateComponent 1000 = 220
   \<and> map_of (perFormat (estimates
         [\<lparr>item_id = ''a'', item_name = ''arrow'', bytes = 1000, tags = None\<rparr>]
         (toggleTarget React (initialState (Preset Web)
           [\<lparr>item_id = ''a'', item_name = ''arrow'', bytes = 1000, tags = None\<rparr>]))))
       (LabelComponents 0) = Some 0
   \<and> total (estimates
         [\<lparr>item_id = ''a'', item_name = ''arrow'', bytes = 1000, tags = None\<rparr>]
         (toggleTarget React (initialState (Preset Web)
           [\<lparr>item_id = ''a'', item_name = ''arrow'', bytes = 1000, tags = None\<rparr>]))) = 880"
proof -
  let ?a = "\<lparr>item_id = ''a'', item_name = ''arrow'', bytes = 1000, tags = None\<rparr>"
  let ?s = "toggleTarget React (initialState (Preset Web) [?a])"
  have f: "formats ?s =
     \<lparr>svg = \<lparr>svg_enabled = True, optimize = Standard, stripFill = False\<rparr>,
      png = \<lparr>png_enabled = False, sizes = DEFAULT_PNG_SIZES, background = Transparent\<rparr>,
      ico = \<lparr>ico_enabled = False\<rparr>,
      sprite = \<lparr>sprite_enabled = False, layout = Packed\<rparr>,
      font = \<lparr>font_enabled = False, includeLigatures = False\<rparr>,
      components = \<lparr>components_enabled = True, targets = []\<rparr>\<rparr>"
    by (simp add: toggleTarget_def initialState_def new_Set_def set_add_def set_delete_def Let_def)
  have en: "components_enabled (components (formats ?s))"
    by (simp add: f)
  have sel: "selectedItems [?a] ?s = [?a]"
    by (simp add: selectedItems_def toggleTarget_def initialState_def initialSelection_def Let_def
        obj_truthy_def obj_assign_def)
  have off: "total (estimates [?a]
               (?s\<lparr>formats := (formats ?s)\<lparr>components :=
                    (components (formats ?s))\<lparr>components_enabled := False\<rparr>\<rparr>\<rparr>)) = 880"
    using sel
    by (simp add: estimates_total f selectedItems_def svgBytes_def sum_arr_def
        svg_1000_standard)
  have c: "estimateComponent 1000 = 220"
    by (rule component_1000)
  show ?thesis
    using components_contribution[OF en, of "[?a]"] off c by (simp add: f)
qed

section \<open>Properties of the presets, the edits and the start of an export\<close>

lemma profile_applyEdit: "profile (applyEdit e s) = Custom"
  by (cases e) (simp_all add: toggleSize_def toggleTarget_def Let_def)

lemma preset_total:
  "p_svg (profilePresets key) \<noteq> None \<and> p_png (profilePresets key) \<noteq> None
   \<and> p_ico (profilePresets key) \<noteq> None \<and> p_sprite (profilePresets key) \<noteq> None
   \<and> p_font (profilePresets key) \<noteq> None \<and> p_components (profilePresets key) \<noteq> None"
  by (cases key) simp_all

text \<open>
  C6. Applying a preset sets the profile to its key and merges the payload of the preset
  into the configuration: a format, or a naming field, that the payload has replaces the
  current one, one that it lacks keeps its value, and so do the colour mapping, the
  delivery, the webhook and the selection. Every edit of a field of a format or of the
  naming made afterwards sets the profile to custom, also an edit that leaves the formats
  and the naming equal to those of the preset.
\<close>

theorem preset_merge_then_custom:
  "profile (applyPreset key s) = Preset key
   \<and> applyPreset key s = applyPayload key (profilePresets key) s
   \<and> svg (formats (applyPayload key p s)) =
       (case p_svg p of Some x \<Rightarrow> x | None \<Rightarrow> svg (formats s))
   \<and> png (formats (applyPayload key p s)) =
       (case p_png p of Some x \<Rightarrow> x | None \<Rightarrow> png (formats s))
   \<and> ico (formats (applyPayload key p s)) =
       (case p_ico p of Some x \<Rightarrow> x | None \<Rightarrow> ico (formats s))
   \<and> sprite (formats (applyPayload key p s)) =
       (case p_sprite p of Some x \<Rightarrow> x | None \<Rightarrow> sprite (formats s))
   \<and> font (formats (applyPayload key p s)) =
       (case p_font p of Some x \<Rightarrow> x | None \<Rightarrow> font (formats s))
   \<and> components (formats (applyPayload key p s)) =
       (case p_components p of Some x \<Rightarrow> x | None \<Rightarrow> components (formats s))
   \<and> pattern (naming (applyPayload key p s)) =
       (case p_naming p of
          Some n \<Rightarrow> (case np_pattern n of Some x \<Rightarrow> x | None \<Rightarrow> pattern (naming s))
        | None \<Rightarrow> pattern (naming s))
   \<and> lowercase (naming (applyPayload key p s)) =
       (case p_naming p of
          Some n \<Rightarrow> (case np_lowercase n of Some x \<Rightarrow> x | None \<Rightarrow> lowercase (naming s))
        | None \<Rightarrow> lowercase (naming s))
   \<and> colorMappingEnabled (applyPayload key p s) = colorMappingEnabled s
   \<and> colorMap (applyPayload key p s) = colorMap s
   \<and> delivery (applyPayload key p s) = delivery s
   \<and> webhook (applyPayload key p s) = webhook s
   \<and> selection (applyPayload key p s) = selection s
   \<and> profile (applyEdit e (applyPreset key s)) = Custom
   \<and> formats (applyEdit (SvgEnabled True) (applyPreset Web s)) = formats (applyPreset Web s)
   \<and> naming (applyEdit (SvgEnabled True) (applyPreset Web s)) = naming (applyPreset Web s)
   \<and> profile (applyEdit (SvgEnabled True) (applyPreset Web s)) = Custom"
proof -
  have fm: "svg (formats (applyPayload key p s)) =
              (case p_svg p of Some x \<Rightarrow> x | None \<Rightarrow> svg (formats s))"
    "png (formats (applyPayload key p s)) =
              (case p_png p of Some x \<Rightarrow> x | None \<Rightarrow> png (formats s))"
    "ico (formats (applyPayload key p s)) =
              (case p_ico p of Some x \<Rightarrow> x | None \<Rightarrow> ico (formats s))"
    "sprite (formats (applyPayload key p s)) =
              (case p_sprite p of Some x \<Rightarrow> x | None \<Rightarrow> sprite (formats s))"
    "font (formats (applyPayload key p s)) =
              (case p_font p of Some x \<Rightarrow> x | None \<Rightarrow> font (formats s))"
    "components (formats (applyPayload key p s)) =
              (case p_components p of Some x \<Rightarrow> x | None \<Rightarrow> components (formats s))"
    by (simp_all add: applyPayload_def merge_format_def)
  have nm: "pattern (naming (applyPayload key p s)) =
       (case p_naming p of
          Some n \<Rightarrow> (case np_pattern n of Some x \<Rightarrow> x | None \<Rightarrow> pattern (naming s))
        | None \<Rightarrow> pattern (naming s))"
    "lowercase (naming (applyPayload key p s)) =
       (case p_naming p of
          Some n \<Rightarrow> (case np_lowercase n of Some x \<Rightarrow> x | None \<Rightarrow> lowercase (naming s))
        | None \<Rightarrow> lowercase (naming s))"
    by (simp_all add: applyPayload_def merge_naming_def split: option.splits)
  have rest: "colorMappingEnabled (applyPayload key p s) = colorMappingEnabled s"
    "colorMap (applyPayload key p s) = colorMap s"
    "delivery (applyPayload key p s) = delivery s"
    "webhook (applyPayload key p s) = webhook s"
    "selection (applyPayload key p s) = selection s"
    by (simp_all add: applyPayload_def)
  have pr: "profile (applyPreset key s) = Preset key"
    "applyPreset key s = applyPayload key (profilePresets key) s"
    by (simp_all add: applyPreset_def applyPayload_def)
  have same: "formats (applyEdit (SvgEnabled True) (applyPreset Web s)) = formats (applyPreset Web s)"
    "naming (applyEdit (SvgEnabled True) (applyPreset Web s)) = naming (applyPreset Web s)"
    by (simp_all add: applyPreset_def applyPayload_def merge_format_def)
  show ?thesis
    using fm nm rest pr same profile_applyEdit by simp
qed

text \<open>
  C10. The include switch of an item sets the profile to custom and records the choice in
  the selection; the formats, the naming, the colour mapping, the delivery and the webhook
  are unchanged.
\<close>

theorem setIncluded_frame:
  "profile (setIncluded k v s) = Custom
   \<and> selection (setIncluded k v s) = (selection s)(k \<mapsto> v)
   \<and> formats (setIncluded k v s) = formats s
   \<and> naming (setIncluded k v s) = naming s
   \<and> colorMappingEnabled (setIncluded k v s) = colorMappingEnabled s
   \<and> colorMap (setIncluded k v s) = colorMap s
   \<and> delivery (setIncluded k v s) = delivery s
   \<and> webhook (setIncluded k v s) = webhook s"
  by (simp add: setIncluded_def)

lemma mount_web_formats:
  "formats (state (mountHub (Preset Web) its)) =
     \<lparr>svg = \<lparr>svg_enabled = True, optimize = Standard, stripFill = False\<rparr>,
      png = \<lparr>png_enabled = False, sizes = DEFAULT_PNG_SIZES, background = Transparent\<rparr>,
      ico = \<lparr>ico_enabled = False\<rparr>,
      sprite = \<lparr>sprite_enabled = True, layout = Packed\<rparr>,
      font = \<lparr>font_enabled = False, includeLigatures = False\<rparr>,
      components = \<lparr>components_enabled = True, targets = [React]\<rparr>\<rparr>"
  by (simp add: mountHub_def applyPreset_def applyPayload_def initialState_def merge_format_def)

lemma mount_selection:
  "selection (state (mountHub (Preset Web) its)) = initialSelection its"
  "items (mountHub (Preset Web) its) = its"
  by (simp_all add: mountHub_def applyPreset_def applyPayload_def initialState_def)




lemma mount_is_run:
  "state (mountHub (Preset key) its) = run pro teams [ApplyPreset key] (initialState (Preset key) its)"
  "state (mountHub Custom its) = run pro teams [] (initialState Custom its)"
  by (simp_all add: mountHub_def run_def)


lemma run_edits:
  "run pro teams (Edit e # acts) s = run pro teams acts (applyEdit e s)"
  "run pro teams [] s = s"
  by (simp_all add: run_def)

lemma no_sizes_formats:
  "formats (state (dispatch False False
      [Edit (SvgEnabled False), Edit (SpriteEnabled False), Edit (ComponentsEnabled False),
       Edit (PngEnabled True), Edit (PngToggleSize 16), Edit (PngToggleSize 24),
       Edit (PngToggleSize 32), Edit (PngToggleSize 48), Edit (PngToggleSize 64)]
      (mountHub (Preset Web) its))) =
     \<lparr>svg = \<lparr>svg_enabled = False, optimize = Standard, stripFill = False\<rparr>,
      png = \<lparr>png_enabled = True, sizes = [], background = Transparent\<rparr>,
      ico = \<lparr>ico_enabled = False\<rparr>,
      sprite = \<lparr>sprite_enabled = False, layout = Packed\<rparr>,
      font = \<lparr>font_enabled = False, includeLigatures = False\<rparr>,
      components = \<lparr>components_enabled = False, targets = [React]\<rparr>\<rparr>"
  by (simp add: dispatch_def run_edits mountHub_def applyPreset_def applyPayload_def
      initialState_def merge_format_def toggleSize_def new_Set_def set_add_def set_delete_def
      DEFAULT_PNG_SIZES_def Let_def)

lemma selection_applyEdit: "selection (applyEdit e s) = selection s"
  by (cases e) (simp_all add: toggleSize_def toggleTarget_def Let_def)

lemma initialSelection_apply:
  "foldl (\<lambda>m i. obj_assign (item_id i) True m) m0 its k =
     (if k \<in> item_id ` set its \<and> k \<noteq> ''__proto__'' then Some True else m0 k)"
  by (induction its arbitrary: m0) (auto simp: obj_assign_def)

lemma initial_all_selected:
  assumes "selection s = initialSelection its"
  shows "selectedItems its s = its"
proof -
  have "obj_truthy (selection s) (item_id i)" if "i \<in> set its" for i
  proof (cases "item_id i = ''__proto__''")
    case True
    then show ?thesis
      by (simp add: obj_truthy_def assms initialSelection_def initialSelection_apply
          Object_prototype_keys_def)
  next
    case False
    then show ?thesis
      using that by (simp add: obj_truthy_def assms initialSelection_def initialSelection_apply)
  qed
  then show ?thesis
    by (simp add: selectedItems_def)
qed

lemma mount_all_selected:
  "selectedItems its (state (mountHub p its)) = its"
proof -
  have "selection (state (mountHub p its)) = initialSelection its"
    by (cases p) (simp_all add: mountHub_def applyPreset_def applyPayload_def initialState_def)
  then show ?thesis
    by (rule initial_all_selected)
qed

lemma no_sizes_selected:
  "selectedItems its (state (dispatch False False
      [Edit (SvgEnabled False), Edit (SpriteEnabled False), Edit (ComponentsEnabled False),
       Edit (PngEnabled True), Edit (PngToggleSize 16), Edit (PngToggleSize 24),
       Edit (PngToggleSize 32), Edit (PngToggleSize 48), Edit (PngToggleSize 64)]
      (mountHub (Preset Web) its))) = its"
proof (rule initial_all_selected)
  show "selection (state (dispatch False False
      [Edit (SvgEnabled False), Edit (SpriteEnabled False), Edit (ComponentsEnabled False),
       Edit (PngEnabled True), Edit (PngToggleSize 16), Edit (PngToggleSize 24),
       Edit (PngToggleSize 32), Edit (PngToggleSize 48), Edit (PngToggleSize 64)]
      (mountHub (Preset Web) its))) = initialSelection its"
    by (simp add: dispatch_def run_edits selection_applyEdit mount_selection del: applyEdit.simps)
qed

lemma dispatch_frame:
  "items (dispatch pro teams acts h) = items h"
  "timers (dispatch pro teams acts h) = timers h"
  "nextHandle (dispatch pro teams acts h) = nextHandle h"
  "exportStarted (dispatch pro teams acts h) = exportStarted h"
  "exportCompleted (dispatch pro teams acts h) = exportCompleted h"
  "isExporting (dispatch pro teams acts h) = isExporting h"
  by (simp_all add: dispatch_def)

lemma mount_idle:
  "timers (mountHub p its) = []" "nextHandle (mountHub p its) = 0"
  "exportCompleted (mountHub p its) = []" "items (mountHub p its) = its"
  "exportStarted (mountHub p its) = []" "\<not> isExporting (mountHub p its)"
  by (simp_all add: mountHub_def)

text \<open>
  C5. A hub mounted with one item and the web profile, after the edits that disable SVG,
  the sprite sheet and the components, enable PNG and toggle each of its five sizes off:
  PNG is the only enabled format and it has no size, so that no enabled format has
  effective parameters. The start buttons are enabled all the same, and the start of an
  export raises no error: it hands a configuration with PNG enabled and no size to
  \<^verbatim>\<open>onExportStart\<close> and starts the timer of a batch of one item with an archive of 0
  bytes.
\<close>

theorem png_without_sizes_starts:
  "let h = dispatch False False
             [Edit (SvgEnabled False), Edit (SpriteEnabled False), Edit (ComponentsEnabled False),
              Edit (PngEnabled True), Edit (PngToggleSize 16), Edit (PngToggleSize 24),
              Edit (PngToggleSize 32), Edit (PngToggleSize 48), Edit (PngToggleSize 64)]
             (mountHub (Preset Web)
                [\<lparr>item_id = ''a'', item_name = ''arrow'', bytes = 1000, tags = None\<rparr>])
   in png_enabled (png (formats (state h)))
      \<and> sizes (png (formats (state h))) = []
      \<and> \<not> spec_viable_format (formats (state h))
      \<and> canExport (items h) (state h)
      \<and> \<not> isl (startExport 0 h)
      \<and> isExporting (projr (startExport 0 h))
      \<and> map (\<lambda>c. (png_enabled (png (cfg_formats c)), sizes (png (cfg_formats c))))
           (exportStarted (projr (startExport 0 h))) = [(True, [])]
      \<and> timers (projr (startExport 0 h)) =
           [\<lparr>t_handle = 0, t_start = 0, t_total = 1, t_archive = 0\<rparr>]"
proof -
  let ?a = "\<lparr>item_id = ''a'', item_name = ''arrow'', bytes = 1000, tags = None\<rparr>"
  let ?h = "dispatch False False
             [Edit (SvgEnabled False), Edit (SpriteEnabled False), Edit (ComponentsEnabled False),
              Edit (PngEnabled True), Edit (PngToggleSize 16), Edit (PngToggleSize 24),
              Edit (PngToggleSize 32), Edit (PngToggleSize 48), Edit (PngToggleSize 64)]
             (mountHub (Preset Web) [?a])"
  note f = no_sizes_formats[of "[?a]"]
  have sel: "selectedItems (items ?h) (state ?h) = [?a]"
    by (simp only: dispatch_frame mount_idle no_sizes_selected)
  have tot: "total (estimates (items ?h) (state ?h)) = 0"
    unfolding estimates_total sel by (simp add: f pngBytes_def sum_arr_def)
  have c1: "png_enabled (png (formats (state ?h)))" "sizes (png (formats (state ?h))) = []"
    "\<not> spec_viable_format (formats (state ?h))"
    by (simp_all add: f spec_viable_format_def)
  have c2: "canExport (items ?h) (state ?h)"
    unfolding canExport_def sel by (simp add: f)
  have st: "startExport 0 ?h =
      Inr (?h\<lparr>exportStarted := exportStarted ?h @
                 [\<lparr>cfg_profile = profile (state ?h), cfg_formats = formats (state ?h),
                   cfg_naming = naming (state ?h),
                   cfg_colorMappingEnabled = colorMappingEnabled (state ?h),
                   cfg_colorMap = colorMap (state ?h), cfg_delivery = delivery (state ?h),
                   cfg_webhook =
                     (if webhook_enabled (webhook (state ?h))
                      then \<lparr>webhook_enabled = True, url = url (webhook (state ?h)),
                            secret = secret (webhook (state ?h)),
                            events = events (webhook (state ?h))\<rparr>
                      else \<lparr>webhook_enabled = False, url = Some [], secret = Some [],
                            events = \<lparr>ev_completed = False, ev_failed = False\<rparr>\<rparr>),
                   cfg_selection = map item_id [?a]\<rparr>],
               isExporting := True, batchProgress := 0,
               progressById := foldl (\<lambda>m i. rec_assign (item_id i) 0 m) [] [?a],
               timers := timers ?h @
                 [\<lparr>t_handle = nextHandle ?h, t_start = 0, t_total = length [?a],
                   t_archive = 0\<rparr>],
               nextHandle := Suc (nextHandle ?h)\<rparr>)"
    unfolding startExport_def Let_def sel tot by simp
  have c3: "\<not> isl (startExport 0 ?h)" "isExporting (projr (startExport 0 ?h))"
    "map (\<lambda>c. (png_enabled (png (cfg_formats c)), sizes (png (cfg_formats c))))
       (exportStarted (projr (startExport 0 ?h))) = [(True, [])]"
    "timers (projr (startExport 0 ?h)) = [\<lparr>t_handle = 0, t_start = 0, t_total = 1, t_archive = 0\<rparr>]"
    unfolding st by (simp_all add: dispatch_frame mount_idle f)
  show ?thesis
    unfolding Let_def using c1 c2 c3 by (intro conjI)
qed

section \<open>Properties of a run of the batch callback\<close>

lemma tick_no_timer:
  "find (\<lambda>t. t_handle t = hnd) (timers h) = None \<Longrightarrow> tick hnd rnd h = h"
  by (simp add: tick_def)

lemma tick_running:
  assumes "find (\<lambda>t. t_handle t = hnd) (timers h) = Some t"
    and "overall_of (advance rnd (progressById h)) (t_total t) < 100"
  shows "tick hnd rnd h =
           h\<lparr>batchProgress := overall_of (advance rnd (progressById h)) (t_total t),
             progressById := advance rnd (progressById h)\<rparr>"
  using assms by (simp add: tick_def Let_def)

lemma tick_complete:
  assumes "find (\<lambda>t. t_handle t = hnd) (timers h) = Some t"
    and "100 \<le> overall_of (advance rnd (progressById h)) (t_total t)"
  shows "tick hnd rnd h =
           h\<lparr>batchProgress := overall_of (advance rnd (progressById h)) (t_total t),
             timers := filter (\<lambda>u. t_handle u \<noteq> hnd) (timers h),
             isExporting := False,
             exportCompleted := exportCompleted h @
               [\<lparr>batchId = ''batch_'' @ toStringRadix 10 (t_start t),
                 success = True,
                 processedCount = t_total t,
                 totalCount = t_total t,
                 archiveSizeBytes = t_archive t\<rparr>],
             progressById := advance rnd (progressById h)\<rparr>"
  using assms by (simp add: tick_def Let_def)

lemma tick_progress:
  assumes "find (\<lambda>t. t_handle t = hnd) (timers h) = Some t"
  shows "progressById (tick hnd rnd h) = advance rnd (progressById h)"
    and "batchProgress (tick hnd rnd h) = overall_of (advance rnd (progressById h)) (t_total t)"
  using assms by (simp_all add: tick_def Let_def)

lemma step_range:
  assumes "0 \<le> r" "r < 1"
  shows "0 \<le> js_round (fl64 (r * 12)) \<and> js_round (fl64 (r * 12)) \<le> 12"
proof -
  have lo: "0 \<le> fl64 (r * 12)"
    using assms by (intro fl64_nonneg) simp
  have hi: "fl64 (r * 12) \<le> 12"
  proof (cases "r = 0")
    case True
    then show ?thesis by simp
  next
    case False
    have "(12::real) / ulp64 (r * 12) \<in> \<int>"
    proof (rule half_grid)
      show "r * 12 \<noteq> 0" using False by simp
      show "\<bar>r * 12\<bar> < 2 ^ 52" using assms by simp
      have "2 * (12::real) = real_of_int 24" by simp
      then show "2 * (12::real) \<in> \<int>" by (simp only: Ints_of_int)
    qed
    then show ?thesis
      using False assms by (intro fl64_le_grid) simp_all
  qed
  have "round (0::real) \<le> round (fl64 (r * 12))"
    using lo by (rule round_mono)
  moreover have "round (fl64 (r * 12)) \<le> round (12::real)"
    using hi by (rule round_mono)
  ultimately show ?thesis
    by (simp add: js_round_eq_round)
qed

lemma advance_keys: "map fst (advance r c) = map fst c"
  by (induction c) (auto simp: advance_def Let_def)

lemma advance_length: "length (advance r c) = length c"
  by (simp add: advance_def)

lemma advance_step:
  assumes "\<forall>k. 0 \<le> r k \<and> r k < 1"
  shows "list_all2
           (\<lambda>(k, v) (k', v'). k' = k
              \<and> (if v < 100 then \<exists>d. 8 \<le> d \<and> d \<le> 20 \<and> v' = min 100 (v + d) else v' = v))
           c (advance r c)"
    (is "list_all2 ?R c (advance r c)")
proof (induction c)
  case Nil
  then show ?case by (simp add: advance_def)
next
  case (Cons p c)
  obtain k v where p: "p = (k, v)"
    by (cases p)
  define v1 where "v1 = (if v < 100 then min 100 (v + (8 + js_round (fl64 (r k * 12)))) else v)"
  have eq: "advance r ((k, v) # c) = (k, v1) # advance r c"
    by (simp add: advance_def Let_def v1_def)
  have "8 \<le> 8 + js_round (fl64 (r k * 12)) \<and> 8 + js_round (fl64 (r k * 12)) \<le> 20"
    using step_range[of "r k"] assms by auto
  then have "v < 100 \<Longrightarrow> \<exists>d. 8 \<le> d \<and> d \<le> 20 \<and> v1 = min 100 (v + d)"
    unfolding v1_def by (metis (full_types))
  moreover have "\<not> v < 100 \<Longrightarrow> v1 = v"
    by (simp add: v1_def)
  ultimately have "?R (k, v) (k, v1)"
    by simp
  then have "list_all2 ?R ((k, v) # c) ((k, v1) # advance r c)"
    using Cons.IH by (rule list_all2_Cons[THEN iffD2, OF conjI])
  then show ?case
    unfolding p eq .
qed

lemma advance_bounds:
  assumes "\<forall>k. 0 \<le> r k \<and> r k < 1"
    and "\<forall>v \<in> set (map snd c). lo \<le> v \<and> v \<le> 100"
  shows "\<forall>v \<in> set (map snd (advance r c)). min 100 (lo + 8) \<le> v \<and> v \<le> 100"
proof
  fix v'
  assume "v' \<in> set (map snd (advance r c))"
  then obtain k v where kv: "(k, v) \<in> set c"
    and v': "v' = (if v < 100 then min 100 (v + (8 + js_round (fl64 (r k * 12)))) else v)"
    by (auto simp: advance_def Let_def split: if_splits)
  have b: "lo \<le> v \<and> v \<le> 100"
    using assms(2) kv by force
  have "0 \<le> js_round (fl64 (r k * 12))"
    using step_range[of "r k"] assms(1) by auto
  then show "min 100 (lo + 8) \<le> v' \<and> v' \<le> 100"
    using b v' by auto
qed

lemma sum_list_upper: "\<forall>v \<in> set xs. v \<le> (c::int) \<Longrightarrow> sum_list xs \<le> c * int (length xs)"
  by (induction xs) (auto simp: algebra_simps)

lemma sum_list_lower: "\<forall>v \<in> set xs. (0::int) \<le> v \<Longrightarrow> 0 \<le> sum_list xs"
  by (induction xs) auto

lemma sum_list_const: "\<forall>v \<in> set xs. v = (c::int) \<Longrightarrow> sum_list xs = c * int (length xs)"
  by (induction xs) (auto simp: algebra_simps)

text \<open>
  The value that is rounded to the overall progress is within three parts in \<open>2 ^ 53\<close> of
  the exact quotient of the sum by the number of items.
\<close>

lemma overall_value_near:
  fixes S :: int and T :: nat
  assumes "0 \<le> S" "0 < T"
  shows "\<bar>fl64 (fl64 (real_of_int S / real (T * 100)) * 100) - real_of_int S / real T\<bar>
         \<le> 3 * (real_of_int S / real T) / 2 ^ 53"
proof -
  define q where "q = real_of_int S / real (T * 100)"
  define a where "a = fl64 q"
  define e where "e = real_of_int S / real T"
  have q0: "0 \<le> q"
    using assms by (simp add: q_def)
  have qe: "100 * q = e"
    using assms by (simp add: q_def e_def)
  have a0: "0 \<le> a"
    unfolding a_def using q0 by (rule fl64_nonneg)
  have aq: "\<bar>a - q\<bar> \<le> q / 2 ^ 53"
    using fl64_error[of q] q0 by (simp add: a_def)
  have "q / 2 ^ 53 \<le> q"
    using q0 by (simp add: field_simps)
  then have a2: "a \<le> 2 * q"
    using aq by linarith
  have va: "\<bar>fl64 (a * 100) - a * 100\<bar> \<le> a * 100 / 2 ^ 53"
    using fl64_error[of "a * 100"] a0 by simp
  have "a * 100 / 2 ^ 53 \<le> 2 * q * 100 / 2 ^ 53"
    using a2 by (simp add: divide_right_mono)
  then have "\<bar>fl64 (a * 100) - a * 100\<bar> \<le> 2 * e / 2 ^ 53"
    using va qe by simp
  moreover have "\<bar>a * 100 - e\<bar> \<le> e / 2 ^ 53"
  proof -
    have "\<bar>a * 100 - e\<bar> = 100 * \<bar>a - q\<bar>"
      using qe by (simp add: abs_if)
    also have "\<dots> \<le> 100 * (q / 2 ^ 53)"
      using aq by simp
    also have "\<dots> = e / 2 ^ 53"
      using qe by simp
    finally show ?thesis .
  qed
  ultimately have "\<bar>fl64 (a * 100) - e\<bar> \<le> 3 * e / 2 ^ 53"
    by linarith
  then show ?thesis
    by (simp add: a_def q_def e_def)
qed

lemma js_round_bounds:
  "real_of_int (js_round v) - 1 / 2 \<le> v" "v < real_of_int (js_round v) + 1 / 2"
  unfolding js_round_eq_round round_def by linarith+

text \<open>
  The overall progress is an integer nearest to the exact quotient of the sum of the
  counters by the number of items. When the quotient is halfway between two integers the
  rounded value may lie on either side of it, and either neighbour may come out.
\<close>

lemma overall_nearest:
  fixes S :: int and T :: nat
  assumes S0: "0 \<le> S" and S50: "S < 2 ^ 50" and T0: "0 < T"
  defines "e \<equiv> real_of_int S / real T"
  defines "m \<equiv> js_round (fl64 (fl64 (real_of_int S / real (T * 100)) * 100))"
  shows "m = round e \<or> (e - real_of_int \<lfloor>e\<rfloor> = 1 / 2 \<and> m = \<lfloor>e\<rfloor>)"
proof -
  define v where "v = fl64 (fl64 (real_of_int S / real (T * 100)) * 100)"
  define err where "err = 3 * e / 2 ^ 53"
  have Tr: "0 < real T"
    using T0 by simp
  have e0: "0 \<le> e"
    using S0 by (simp add: e_def)
  have near: "\<bar>v - e\<bar> \<le> err"
    unfolding v_def e_def err_def using S0 T0 by (rule overall_value_near)
  have "real_of_int (6 * S) < real_of_int (2 ^ 53)"
    using S50 by (simp only: of_int_less_iff) simp
  then have s6: "6 * real_of_int S < 2 ^ 53"
    by simp
  have err_lt: "err < 1 / (2 * real T)"
  proof -
    have "err = 6 * real_of_int S / 2 ^ 53 * (1 / (2 * real T))"
      by (simp add: err_def e_def)
    also have "\<dots> < 1 * (1 / (2 * real T))"
      using s6 Tr by (intro mult_strict_right_mono) simp_all
    finally show ?thesis
      by simp
  qed
  have mv: "real_of_int m - 1 / 2 \<le> v" "v < real_of_int m + 1 / 2"
    unfolding m_def v_def by (rule js_round_bounds)+
  have eT: "e * (2 * real T) = real_of_int (2 * S)"
    using Tr by (simp add: e_def)
  have up: "e \<le> real_of_int m + 1 / 2"
  proof (rule ccontr)
    assume "\<not> e \<le> real_of_int m + 1 / 2"
    then have "real_of_int m + 1 / 2 < e"
      by simp
    then have "(real_of_int m + 1 / 2) * (2 * real T) < e * (2 * real T)"
      using Tr by (intro mult_strict_right_mono) simp_all
    then have "real_of_int ((2 * m + 1) * int T) < real_of_int (2 * S)"
      unfolding eT by (simp add: algebra_simps)
    then have "(2 * m + 1) * int T < 2 * S"
      by (simp only: of_int_less_iff)
    then have "(2 * m + 1) * int T + 1 \<le> 2 * S"
      by simp
    then have "real_of_int ((2 * m + 1) * int T + 1) \<le> real_of_int (2 * S)"
      by (simp only: of_int_le_iff)
    then have "(real_of_int m + 1 / 2) * (2 * real T) + 1 \<le> e * (2 * real T)"
      unfolding eT by (simp add: algebra_simps)
    then have "((real_of_int m + 1 / 2) * (2 * real T) + 1) / (2 * real T) \<le> e"
      using Tr by (simp add: pos_divide_le_eq)
    then have "real_of_int m + 1 / 2 + 1 / (2 * real T) \<le> e"
      using Tr by (simp add: add_divide_distrib)
    then show False
      using near err_lt mv(2) by linarith
  qed
  have low: "real_of_int m - 1 / 2 \<le> e"
  proof (rule ccontr)
    assume "\<not> real_of_int m - 1 / 2 \<le> e"
    then have "e < real_of_int m - 1 / 2"
      by simp
    then have "e * (2 * real T) < (real_of_int m - 1 / 2) * (2 * real T)"
      using Tr by (intro mult_strict_right_mono) simp_all
    then have "real_of_int (2 * S) < real_of_int ((2 * m - 1) * int T)"
      unfolding eT by (simp add: algebra_simps)
    then have "2 * S < (2 * m - 1) * int T"
      by (simp only: of_int_less_iff)
    then have "2 * S + 1 \<le> (2 * m - 1) * int T"
      by simp
    then have "real_of_int (2 * S + 1) \<le> real_of_int ((2 * m - 1) * int T)"
      by (simp only: of_int_le_iff)
    moreover have "e * (real T * 2) = real_of_int S * 2"
      using eT by (simp add: algebra_simps)
    ultimately have "e * (2 * real T) + 1 \<le> (real_of_int m - 1 / 2) * (2 * real T)"
      by (simp add: algebra_simps)
    then have "e \<le> ((real_of_int m - 1 / 2) * (2 * real T) - 1) / (2 * real T)"
      using Tr by (simp add: pos_le_divide_eq)
    then have "e \<le> real_of_int m - 1 / 2 - 1 / (2 * real T)"
      using Tr by (simp add: diff_divide_distrib)
    then show False
      using near err_lt mv(1) by linarith
  qed
  show ?thesis
  proof (cases "e < real_of_int m + 1 / 2")
    case True
    have "\<lfloor>e + 1 / 2\<rfloor> = m"
      using low True by (intro floor_unique) auto
    then show ?thesis
      by (simp add: round_def)
  next
    case False
    with up have eq: "e = real_of_int m + 1 / 2"
      by simp
    have "\<lfloor>e\<rfloor> = m"
      unfolding eq by (intro floor_unique) auto
    then show ?thesis
      using eq by simp
  qed
qed

lemma overall_of_sum_list:
  "overall_of c T =
     js_round (fl64 (fl64 (real_of_int (sum_list (map snd c)) / real (T * 100)) * 100))"
  by (simp add: overall_of_def sum_arr_eq_sum_list)

lemma counters_sum_bounds:
  assumes "\<forall>v \<in> set (map snd c). 0 \<le> v \<and> v \<le> (100::int)" "length c < 2 ^ 32"
  shows "0 \<le> sum_list (map snd c)" "sum_list (map snd c) < 2 ^ 50"
proof -
  show "0 \<le> sum_list (map snd c)"
    using assms(1) by (intro sum_list_lower) auto
  have "sum_list (map snd c) \<le> 100 * int (length (map snd c))"
    using assms(1) by (intro sum_list_upper) auto
  moreover have "int (length c) < 2 ^ 32"
    using assms(2) by (simp add: of_nat_less_numeral_power_cancel_iff)
  ultimately show "sum_list (map snd c) < 2 ^ 50"
    by simp
qed

lemma startExport_fields:
  assumes "selectedItems (items h) (state h) \<noteq> []"
  shows "\<not> isl (startExport now h)"
    and "timers (projr (startExport now h)) =
           timers h @ [\<lparr>t_handle = nextHandle h, t_start = now,
                        t_total = length (selectedItems (items h) (state h)),
                        t_archive = total (estimates (items h) (state h))\<rparr>]"
    and "progressById (projr (startExport now h)) =
           foldl (\<lambda>m i. rec_assign (item_id i) 0 m) [] (selectedItems (items h) (state h))"
    and "isExporting (projr (startExport now h))"
    and "batchProgress (projr (startExport now h)) = 0"
    and "exportCompleted (projr (startExport now h)) = exportCompleted h"
    and "nextHandle (projr (startExport now h)) = Suc (nextHandle h)"
    and "items (projr (startExport now h)) = items h"
    and "state (projr (startExport now h)) = state h"
    and "length (exportStarted (projr (startExport now h))) = Suc (length (exportStarted h))"
  using assms by (simp_all add: startExport_def Let_def)

lemma fl64_29_200: "fl64 (29 / 200) = 5224175567749775 / 2 ^ 55"
  using fl64_eval_small[of 2 "29 / 200"] by (simp add: rne_def)

lemma fl64_29_2: "fl64 (fl64 (29 / 200) * 100) = 8162774324609023 / 2 ^ 49"
  using fl64_eval_big[of 3 "5224175567749775 / 2 ^ 55 * 100"] by (simp add: rne_def fl64_29_200)

text \<open>
  Two counters at 14 and 15: their mean is 14.5, the quotient 29 / 200 is rounded down to
  a binary64 number, its product with 100 is rounded to the binary64 number just below
  14.5, and the overall progress is 14.
\<close>

lemma overall_half_down: "overall_of [(''a'', 14), (''b'', 15)] 2 = 14"
  by (simp add: overall_of_def sum_arr_def fl64_29_2 js_round_def)

lemma two_first_tick:
  "advance (\<lambda>k. if k = ''a'' then 1 / 2 else 19 / 32) [(''a'', 0), (''b'', 0)]
     = [(''a'', 14), (''b'', 15)]"
proof -
  have a: "fl64 6 = 6"
    using fl64_of_int[of 6] by simp
  have b: "fl64 (57 / 8) = 57 / 8"
    using fl64_eval_big[of 2 "57 / 8"] by (simp add: rne_def)
  show ?thesis
    by (simp add: advance_def Let_def a b js_round_def)
qed

text \<open>
  C4 (as amended). At every run of the callback of a live timer of a batch with at least
  one item, with the counters in 0..100 before the run and every random draw in [0, 1),
  the overall progress that is reported is an integer nearest to
  \<open>sum(counters) / (itemCount * 100) * 100\<close>, taken over the counters after the run: it is
  that value rounded to the nearest integer, a half rounding up, unless the value lies
  exactly halfway between two integers, where the binary64 arithmetic may also give the
  lower one. It is not the value rounded down.
\<close>

theorem tick_overall_nearest:
  assumes "find (\<lambda>t. t_handle t = hnd) (timers h) = Some t"
    and "0 < t_total t"
    and "length (progressById h) < 2 ^ 32"
    and "\<forall>v \<in> set (map snd (progressById h)). 0 \<le> v \<and> v \<le> 100"
    and "\<forall>k. 0 \<le> rnd k \<and> rnd k < 1"
  shows "let e = real_of_int (sum_list (map snd (progressById (tick hnd rnd h))))
                 / real (t_total t * 100) * 100;
             overall = batchProgress (tick hnd rnd h)
         in overall = round e \<or> (e - real_of_int \<lfloor>e\<rfloor> = 1 / 2 \<and> overall = \<lfloor>e\<rfloor>)"
proof -
  define c where "c = advance rnd (progressById h)"
  define S where "S = sum_list (map snd c)"
  have p: "progressById (tick hnd rnd h) = c"
    and b: "batchProgress (tick hnd rnd h) = overall_of c (t_total t)"
    using tick_progress[OF assms(1), of rnd] by (simp_all add: c_def)
  have "\<forall>v \<in> set (map snd c). min 100 (0 + 8) \<le> v \<and> v \<le> 100"
    unfolding c_def using assms(5,4) by (rule advance_bounds)
  then have cnt: "\<forall>v \<in> set (map snd c). 0 \<le> v \<and> v \<le> 100"
    by auto
  have len: "length c < 2 ^ 32"
    using assms(3) by (simp add: c_def advance_length)
  have S: "0 \<le> S" "S < 2 ^ 50"
    unfolding S_def using cnt len by (rule counters_sum_bounds)+
  have e: "real_of_int S / real (t_total t * 100) * 100 = real_of_int S / real (t_total t)"
    using assms(2) by simp
  have "overall_of c (t_total t) = round (real_of_int S / real (t_total t))
        \<or> (real_of_int S / real (t_total t) - real_of_int \<lfloor>real_of_int S / real (t_total t)\<rfloor>
              = 1 / 2
           \<and> overall_of c (t_total t) = \<lfloor>real_of_int S / real (t_total t)\<rfloor>)"
    unfolding overall_of_sum_list S_def[symmetric] using S assms(2) by (rule overall_nearest)
  then show ?thesis
    unfolding Let_def p b S_def[symmetric] e .
qed

lemma started_mount:
  assumes "its \<noteq> []"
  shows "timers (projr (startExport now (mountHub p its))) =
           [\<lparr>t_handle = 0, t_start = now, t_total = length its,
             t_archive = total (estimates its (state (mountHub p its)))\<rparr>]"
    and "progressById (projr (startExport now (mountHub p its))) =
           foldl (\<lambda>m i. rec_assign (item_id i) 0 m) [] its"
proof -
  have ne: "selectedItems (items (mountHub p its)) (state (mountHub p its)) \<noteq> []"
    using assms by (simp add: mount_idle mount_all_selected)
  show "timers (projr (startExport now (mountHub p its))) =
           [\<lparr>t_handle = 0, t_start = now, t_total = length its,
             t_archive = total (estimates its (state (mountHub p its)))\<rparr>]"
    unfolding startExport_fields(2)[OF ne] by (simp add: mount_idle mount_all_selected)
  show "progressById (projr (startExport now (mountHub p its))) =
           foldl (\<lambda>m i. rec_assign (item_id i) 0 m) [] its"
    unfolding startExport_fields(3)[OF ne] by (simp add: mount_idle mount_all_selected)
qed

theorem tick_overall_nearest_witness:
  "find (\<lambda>t. t_handle t = 0)
     (timers (projr (startExport 0 (mountHub (Preset Web)
        (map (\<lambda>k. \<lparr>item_id = k, item_name = k, bytes = 1000, tags = None\<rparr>) [''a'', ''b''])))))
   = Some \<lparr>t_handle = 0, t_start = 0, t_total = 2,
       t_archive = total (estimates
         (map (\<lambda>k. \<lparr>item_id = k, item_name = k, bytes = 1000, tags = None\<rparr>) [''a'', ''b''])
         (state (mountHub (Preset Web)
           (map (\<lambda>k. \<lparr>item_id = k, item_name = k, bytes = 1000, tags = None\<rparr>)
              [''a'', ''b'']))))\<rparr>
   \<and> progressById (projr (startExport 0 (mountHub (Preset Web)
        (map (\<lambda>k. \<lparr>item_id = k, item_name = k, bytes = 1000, tags = None\<rparr>) [''a'', ''b'']))))
       = [(''a'', 0), (''b'', 0)]
   \<and> progressById (tick 0 (\<lambda>k. if k = ''a'' then 1 / 2 else 19 / 32)
        (projr (startExport 0 (mountHub (Preset Web)
          (map (\<lambda>k. \<lparr>item_id = k, item_name = k, bytes = 1000, tags = None\<rparr>)
             [''a'', ''b''])))))
       = [(''a'', 14), (''b'', 15)]
   \<and> (batchProgress (tick 0 (\<lambda>k. if k = ''a'' then 1 / 2 else 19 / 32)
        (projr (startExport 0 (mountHub (Preset Web)
          (map (\<lambda>k. \<lparr>item_id = k, item_name = k, bytes = 1000, tags = None\<rparr>)
             [''a'', ''b''])))))
       = round (real_of_int (sum_list [14, 15]) / real (2 * 100) * 100)
      \<or> batchProgress (tick 0 (\<lambda>k. if k = ''a'' then 1 / 2 else 19 / 32)
        (projr (startExport 0 (mountHub (Preset Web)
          (map (\<lambda>k. \<lparr>item_id = k, item_name = k, bytes = 1000, tags = None\<rparr>)
             [''a'', ''b''])))))
       = \<lfloor>real_of_int (sum_list [14, 15]) / real (2 * 100) * 100\<rfloor>)
   \<and> batchProgress (tick 0 (\<lambda>k. if k = ''a'' then 1 / 2 else 19 / 32)
        (projr (startExport 0 (mountHub (Preset Web)
          (map (\<lambda>k. \<lparr>item_id = k, item_name = k, bytes = 1000, tags = None\<rparr>)
             [''a'', ''b''])))))
       = 14"
proof -
  let ?its = "map (\<lambda>k. \<lparr>item_id = k, item_name = k, bytes = 1000, tags = None\<rparr>) [''a'', ''b'']"
  let ?h0 = "projr (startExport 0 (mountHub (Preset Web) ?its))"
  let ?t = "\<lparr>t_handle = 0, t_start = 0, t_total = 2,
             t_archive = total (estimates ?its (state (mountHub (Preset Web) ?its)))\<rparr>"
  let ?r = "\<lambda>k. if k = ''a'' then 1 / 2 else (19 / 32 :: real)"
  have ne: "?its \<noteq> []"
    by simp
  have tm: "timers ?h0 = [?t]"
    unfolding started_mount(1)[OF ne] by simp
  have p0: "progressById ?h0 = [(''a'', 0), (''b'', 0)]"
    unfolding started_mount(2)[OF ne] by (simp add: rec_assign_def)
  have f: "find (\<lambda>t. t_handle t = 0) (timers ?h0) = Some ?t"
    unfolding tm by simp
  have pos: "0 < t_total ?t"
    by simp
  have len: "length (progressById ?h0) < 2 ^ 32"
    unfolding p0 by simp
  have cnt: "\<forall>v \<in> set (map snd (progressById ?h0)). 0 \<le> v \<and> v \<le> 100"
    unfolding p0 by simp
  have rng: "\<forall>k. 0 \<le> ?r k \<and> ?r k < 1"
    by simp
  have p1: "progressById (tick 0 ?r ?h0) = [(''a'', 14), (''b'', 15)]"
    using tick_progress(1)[OF f, of ?r] unfolding p0 two_first_tick .
  have b1: "batchProgress (tick 0 ?r ?h0) = 14"
    using tick_progress(2)[OF f, of ?r] unfolding p0 two_first_tick by (simp add: overall_half_down)
  from tick_overall_nearest[OF f pos len cnt rng]
  have "batchProgress (tick 0 ?r ?h0)
          = round (real_of_int (sum_list [14, 15]) / real (2 * 100) * 100)
        \<or> batchProgress (tick 0 ?r ?h0)
          = \<lfloor>real_of_int (sum_list [14, 15]) / real (2 * 100) * 100\<rfloor>"
    unfolding Let_def p1 by auto
  with f p0 p1 b1 show ?thesis
    by (intro conjI)
qed

lemma three_first_tick:
  "advance (\<lambda>k. if k = ''a'' then 0 else 1 / 16) [(''a'', 0), (''b'', 0), (''c'', 0)]
     = [(''a'', 8), (''b'', 9), (''c'', 9)]"
proof -
  have b: "fl64 (3 / 4) = 3 / 4"
    using fl64_eval_small[of 0 "3 / 4"] by (simp add: rne_def)
  show ?thesis
    by (simp add: advance_def Let_def b js_round_def)
qed

lemma three_overall: "overall_of [(''a'', 8), (''b'', 9), (''c'', 9)] 3 = 9"
proof -
  have "js_round (fl64 (fl64 (real_of_int 26 / real (3 * 100)) * 100)) = round (real_of_int 26 / real 3)
        \<or> (real_of_int 26 / real 3 - real_of_int \<lfloor>real_of_int 26 / real 3\<rfloor> = 1 / 2
           \<and> js_round (fl64 (fl64 (real_of_int 26 / real (3 * 100)) * 100))
               = \<lfloor>real_of_int 26 / real 3\<rfloor>)"
    by (rule overall_nearest) simp_all
  moreover have "round (real_of_int 26 / real 3) = 9"
    by (simp add: round_def)
  moreover have "\<lfloor>real_of_int 26 / real 3\<rfloor> = 8"
    by simp
  ultimately have "js_round (fl64 (fl64 (real_of_int 26 / real (3 * 100)) * 100)) = 9"
    by auto
  then show ?thesis
    by (simp add: overall_of_def sum_arr_def)
qed

theorem overall_floor_counterexample:
  "batchProgress (tick 0 (\<lambda>k. if k = ''a'' then 0 else 1 / 16)
        (projr (startExport 0 (mountHub (Preset Web)
          (map (\<lambda>k. \<lparr>item_id = k, item_name = k, bytes = 1000, tags = None\<rparr>)
             [''a'', ''b'', ''c''])))))
     = 9
   \<and> map snd (progressById (tick 0 (\<lambda>k. if k = ''a'' then 0 else 1 / 16)
        (projr (startExport 0 (mountHub (Preset Web)
          (map (\<lambda>k. \<lparr>item_id = k, item_name = k, bytes = 1000, tags = None\<rparr>)
             [''a'', ''b'', ''c'']))))))
     = [8, 9, 9]
   \<and> \<lfloor>real_of_int (sum_list [8, 9, 9]) / real (3 * 100) * 100\<rfloor> = 8"
proof -
  let ?its = "map (\<lambda>k. \<lparr>item_id = k, item_name = k, bytes = 1000, tags = None\<rparr>) [''a'', ''b'', ''c'']"
  let ?h0 = "projr (startExport 0 (mountHub (Preset Web) ?its))"
  let ?t = "\<lparr>t_handle = 0, t_start = 0, t_total = 3,
             t_archive = total (estimates ?its (state (mountHub (Preset Web) ?its)))\<rparr>"
  let ?r = "\<lambda>k. if k = ''a'' then 0 else (1 / 16 :: real)"
  have ne: "?its \<noteq> []"
    by simp
  have tm: "timers ?h0 = [?t]"
    unfolding started_mount(1)[OF ne] by simp
  have p0: "progressById ?h0 = [(''a'', 0), (''b'', 0), (''c'', 0)]"
    unfolding started_mount(2)[OF ne] by (simp add: rec_assign_def)
  have f: "find (\<lambda>t. t_handle t = 0) (timers ?h0) = Some ?t"
    unfolding tm by simp
  have p: "progressById (tick 0 ?r ?h0) = [(''a'', 8), (''b'', 9), (''c'', 9)]"
    using tick_progress(1)[OF f, of ?r] unfolding p0 three_first_tick .
  have b: "batchProgress (tick 0 ?r ?h0) = 9"
    using tick_progress(2)[OF f, of ?r] unfolding p0 three_first_tick by (simp add: three_overall)
  have fl: "\<lfloor>real_of_int (sum_list [8, 9, 9]) / real (3 * 100) * 100\<rfloor> = (8::int)"
    by simp
  from b p fl show ?thesis
    by simp
qed

section \<open>Completion of a batch\<close>

lemma update_fresh: "k \<notin> fst ` set al \<Longrightarrow> AList.update k v al = al @ [(k, v)]"
  by (induction al) auto

lemma initProgress_distinct:
  "distinct (map fst acc @ map item_id sel) \<Longrightarrow> ''__proto__'' \<notin> set (map item_id sel) \<Longrightarrow>
     foldl (\<lambda>m i. rec_assign (item_id i) (0::int) m) acc sel
       = acc @ map (\<lambda>i. (item_id i, 0)) sel"
proof (induction sel arbitrary: acc)
  case Nil
  then show ?case by simp
next
  case (Cons i sel)
  from Cons.prems have fresh: "item_id i \<notin> fst ` set acc"
    by auto
  from Cons.prems have np: "item_id i \<noteq> ''__proto__''"
    by auto
  have "distinct (map fst (acc @ [(item_id i, 0::int)]) @ map item_id sel)"
    using Cons.prems by auto
  moreover have "''__proto__'' \<notin> set (map item_id sel)"
    using Cons.prems by auto
  ultimately show ?case
    using Cons.IH[of "acc @ [(item_id i, 0)]"] np by (simp add: rec_assign_def update_fresh[OF fresh])
qed

lemma fl64_100: "fl64 100 = 100"
  using fl64_of_int[of 100] by simp

lemma overall_le:
  assumes "\<forall>v \<in> set (map snd c). 0 \<le> v \<and> v \<le> 100" "length c = tot" "0 < tot"
  shows "overall_of c tot \<le> 100"
proof -
  define S where "S = sum_list (map snd c)"
  define q where "q = real_of_int S / real (tot * 100)"
  have "S \<le> 100 * int (length (map snd c))"
    unfolding S_def using assms(1) by (intro sum_list_upper) auto
  then have "real_of_int S \<le> real_of_int (100 * int tot)"
    using assms(2) by (simp only: of_int_le_iff length_map)
  then have s1: "real_of_int S \<le> 100 * real tot"
    by simp
  have "0 \<le> S"
    unfolding S_def using assms(1) by (intro sum_list_lower) auto
  then have q0: "0 \<le> q"
    by (simp add: q_def)
  have q1: "q \<le> 1"
    using s1 assms(3) by (simp add: q_def field_simps)
  have a0: "0 \<le> fl64 q"
    using q0 by (rule fl64_nonneg)
  have a1: "fl64 q \<le> 1"
  proof (cases "q = 0")
    case True
    then show ?thesis by simp
  next
    case False
    have "(1::real) / ulp64 q \<in> \<int>"
    proof (rule half_grid)
      show "q \<noteq> 0" by (rule False)
      show "\<bar>q\<bar> < 2 ^ 52" using q0 q1 by simp
      have "2 * (1::real) = real_of_int 2" by simp
      then show "2 * (1::real) \<in> \<int>" by (simp only: Ints_of_int)
    qed
    then show ?thesis
      using False q1 by (intro fl64_le_grid) simp_all
  qed
  have v1: "fl64 (fl64 q * 100) \<le> 100"
  proof (cases "fl64 q = 0")
    case True
    then show ?thesis by simp
  next
    case False
    have "(100::real) / ulp64 (fl64 q * 100) \<in> \<int>"
    proof (rule half_grid)
      show "fl64 q * 100 \<noteq> 0" using False by simp
      show "\<bar>fl64 q * 100\<bar> < 2 ^ 52" using a0 a1 by simp
      have "2 * (100::real) = real_of_int 200" by simp
      then show "2 * (100::real) \<in> \<int>" by (simp only: Ints_of_int)
    qed
    then show ?thesis
      using False a1 by (intro fl64_le_grid) simp_all
  qed
  have "round (fl64 (fl64 q * 100)) \<le> round (100::real)"
    using v1 by (rule round_mono)
  then show ?thesis
    by (simp add: overall_of_sum_list js_round_eq_round q_def S_def)
qed

lemma overall_full:
  assumes "\<forall>v \<in> set (map snd c). v = 100" "length c = tot" "0 < tot"
  shows "overall_of c tot = 100"
proof -
  have "sum_list (map snd c) = 100 * int tot"
    using sum_list_const[of "map snd c" 100] assms by simp
  then have "real_of_int (sum_list (map snd c)) = real_of_int (100 * int tot)"
    by (simp only:)
  then have "real_of_int (sum_list (map snd c)) = 100 * real tot"
    by simp
  then have "real_of_int (sum_list (map snd c)) / real (tot * 100) = 1"
    using assms(3) by simp
  then show ?thesis
    by (simp add: overall_of_sum_list fl64_one fl64_100 js_round_def)
qed

text \<open>
  A batch that is started while no timer is live, for selected items with distinct ids
  none of which is \<^verbatim>\<open>__proto__\<close>, and with every random draw in [0, 1). The start gives
  one counter at 0 for each selected item. There is a number \<open>N\<close> of runs of the callback,
  at most 13, such that: before the \<open>N\<close>-th run each run advances every counter below 100
  by an increment from 8 to 20, clamped to 100, and leaves the others, the overall progress
  is below 100, the timer is live and nothing has been reported; after the \<open>N\<close>-th run the
  overall progress is exactly 100, the timer is cleared, the hub is no longer exporting,
  and exactly one result has been reported, successful, with the processed and the total
  count equal to the number of selected items and the archive size equal to the total of
  the estimates at the start; and no later run changes anything.
\<close>

lemma fresh_batch_completes:
  assumes ne: "selectedItems (items h) (state h) \<noteq> []"
    and dist: "distinct (map item_id (selectedItems (items h) (state h)))"
    and proto: "''__proto__'' \<notin> set (map item_id (selectedItems (items h) (state h)))"
    and idle: "timers h = []"
    and rng: "\<forall>n k. 0 \<le> rnd n k \<and> rnd n k < 1"
  shows "\<exists>h0 N.
           startExport now h = Inr h0
         \<and> progressById h0 = map (\<lambda>i. (item_id i, 0)) (selectedItems (items h) (state h))
         \<and> 1 \<le> N \<and> N \<le> 13
         \<and> (\<forall>n<N.
               list_all2
                 (\<lambda>(k, v) (k', v'). k' = k
                    \<and> (if v < 100 then \<exists>d. 8 \<le> d \<and> d \<le> 20 \<and> v' = min 100 (v + d)
                       else v' = v))
                 (progressById (ticks (nextHandle h) rnd n h0))
                 (progressById (ticks (nextHandle h) rnd (Suc n) h0))
             \<and> batchProgress (ticks (nextHandle h) rnd n h0) < 100
             \<and> timers (ticks (nextHandle h) rnd n h0) \<noteq> []
             \<and> exportCompleted (ticks (nextHandle h) rnd n h0) = exportCompleted h)
         \<and> batchProgress (ticks (nextHandle h) rnd N h0) = 100
         \<and> timers (ticks (nextHandle h) rnd N h0) = []
         \<and> \<not> isExporting (ticks (nextHandle h) rnd N h0)
         \<and> exportCompleted (ticks (nextHandle h) rnd N h0) =
             exportCompleted h @
               [\<lparr>batchId = ''batch_'' @ toStringRadix 10 now,
                 success = True,
                 processedCount = length (selectedItems (items h) (state h)),
                 totalCount = length (selectedItems (items h) (state h)),
                 archiveSizeBytes = total (estimates (items h) (state h))\<rparr>]
         \<and> (\<forall>m\<ge>N. ticks (nextHandle h) rnd m h0 = ticks (nextHandle h) rnd N h0)"
proof -
  define sel where "sel = selectedItems (items h) (state h)"
  define tot where "tot = length sel"
  define hnd where "hnd = nextHandle h"
  define t where "t = \<lparr>t_handle = hnd, t_start = now, t_total = tot,
                        t_archive = total (estimates (items h) (state h))\<rparr>"
  define h0 where "h0 = projr (startExport now h)"
  define H where "H n = ticks hnd rnd n h0" for n
  define res where "res = \<lparr>batchId = ''batch_'' @ toStringRadix 10 now, success = True,
                           processedCount = tot, totalCount = tot,
                           archiveSizeBytes = total (estimates (items h) (state h))\<rparr>"
  let ?R = "\<lambda>(k, v) (k', v'). k' = k
              \<and> (if v < 100 then \<exists>d. 8 \<le> d \<and> d \<le> (20::int) \<and> v' = min 100 (v + d)
                 else v' = v)"
  have tot_pos: "0 < tot"
    using ne by (simp add: tot_def sel_def)
  note sf = startExport_fields[OF ne, of now]
  have start: "startExport now h = Inr h0"
    using sf(1) by (simp add: h0_def)
  have h0_timers: "timers h0 = [t]"
    unfolding h0_def sf(2) by (simp add: idle t_def hnd_def tot_def sel_def)
  have h0_prog: "progressById h0 = map (\<lambda>i. (item_id i, 0)) sel"
    unfolding h0_def sf(3) using initProgress_distinct[of "[]" sel] dist proto
    by (simp add: sel_def)
  have h0_rest: "isExporting h0" "batchProgress h0 = 0" "exportCompleted h0 = exportCompleted h"
    unfolding h0_def by (simp_all add: sf)
  have H_Suc: "H (Suc n) = tick hnd (rnd n) (H n)" for n
    by (simp add: H_def)
  define Run where "Run m \<longleftrightarrow>
      timers (H m) = [t] \<and> exportCompleted (H m) = exportCompleted h \<and> isExporting (H m)
      \<and> length (progressById (H m)) = tot
      \<and> (\<forall>v \<in> set (map snd (progressById (H m))). min 100 (8 * int m) \<le> v \<and> v \<le> 100)
      \<and> batchProgress (H m) < 100
      \<and> (1 \<le> m \<longrightarrow> batchProgress (H m) = overall_of (progressById (H m)) tot)" for m
  define Done where "Done m \<longleftrightarrow>
      timers (H m) = [] \<and> exportCompleted (H m) = exportCompleted h @ [res]
      \<and> \<not> isExporting (H m) \<and> batchProgress (H m) = 100" for m
  have run0: "Run 0"
    by (simp add: Run_def H_def h0_timers h0_prog h0_rest tot_def)
  have found: "find (\<lambda>u. t_handle u = hnd) (timers (H m)) = Some t" if "Run m" for m
    using that by (simp add: Run_def t_def)
  have step: "Run (Suc m) \<or> Done (Suc m)" if r: "Run m" for m
  proof -
    let ?c = "advance (rnd m) (progressById (H m))"
    have f: "find (\<lambda>u. t_handle u = hnd) (timers (H m)) = Some t"
      by (rule found[OF r])
    have rm: "\<forall>k. 0 \<le> rnd m k \<and> rnd m k < 1"
      using rng by simp
    have len: "length ?c = tot"
      using r by (simp add: advance_length Run_def)
    have "\<forall>v \<in> set (map snd ?c). min 100 (min 100 (8 * int m) + 8) \<le> v \<and> v \<le> 100"
      using r by (intro advance_bounds[OF rm]) (simp add: Run_def)
    then have bnd: "\<forall>v \<in> set (map snd ?c). min 100 (8 * int (Suc m)) \<le> v \<and> v \<le> 100"
      by auto
    have "\<forall>v \<in> set (map snd ?c). 0 \<le> v \<and> v \<le> 100"
    proof
      fix v
      assume "v \<in> set (map snd ?c)"
      with bnd have "min 100 (8 * int (Suc m)) \<le> v \<and> v \<le> 100"
        by blast
      moreover have "0 \<le> min 100 (8 * int (Suc m))"
        by simp
      ultimately show "0 \<le> v \<and> v \<le> 100"
        by linarith
    qed
    then have le: "overall_of ?c tot \<le> 100"
      using len tot_pos by (rule overall_le)
    show ?thesis
    proof (cases "overall_of ?c tot < 100")
      case True
      then have "H (Suc m) = (H m)\<lparr>batchProgress := overall_of ?c tot, progressById := ?c\<rparr>"
        using tick_running[OF f, of "rnd m"] by (simp add: H_Suc t_def)
      then have "Run (Suc m)"
        using r True len bnd unfolding Run_def[of "Suc m"] by (simp add: Run_def[of m])
      then show ?thesis ..
    next
      case False
      with le have full: "overall_of ?c tot = 100"
        by simp
      then have "H (Suc m) =
          (H m)\<lparr>batchProgress := 100,
                 timers := filter (\<lambda>u. t_handle u \<noteq> hnd) (timers (H m)),
                 isExporting := False,
                 exportCompleted := exportCompleted (H m) @ [res],
                 progressById := ?c\<rparr>"
        using tick_complete[OF f, of "rnd m"] by (simp add: H_Suc t_def res_def)
      then have "Done (Suc m)"
        using r unfolding Done_def by (simp add: Run_def[of m] t_def)
      then show ?thesis ..
    qed
  qed
  have dich: "(\<forall>m\<le>n. Run m) \<or> (\<exists>N. 1 \<le> N \<and> N \<le> n \<and> (\<forall>m<N. Run m) \<and> Done N)" for n
  proof (induction n)
    case 0
    then show ?case using run0 by simp
  next
    case (Suc n)
    then show ?case
    proof
      assume all: "\<forall>m\<le>n. Run m"
      then have "Run n" by simp
      from step[OF this] show ?thesis
      proof
        assume "Run (Suc n)"
        with all have "\<forall>m\<le>Suc n. Run m"
          by (simp add: le_Suc_eq)
        then show ?thesis ..
      next
        assume "Done (Suc n)"
        moreover have "\<forall>m<Suc n. Run m"
          using all by (simp add: less_Suc_eq_le)
        ultimately have "\<exists>N. 1 \<le> N \<and> N \<le> Suc n \<and> (\<forall>m<N. Run m) \<and> Done N"
          by (intro exI[of _ "Suc n"]) simp
        then show ?thesis ..
      qed
    next
      assume "\<exists>N. 1 \<le> N \<and> N \<le> n \<and> (\<forall>m<N. Run m) \<and> Done N"
      then obtain N where "1 \<le> N" "N \<le> n" "\<forall>m<N. Run m" "Done N"
        by blast
      then have "\<exists>N. 1 \<le> N \<and> N \<le> Suc n \<and> (\<forall>m<N. Run m) \<and> Done N"
        by (intro exI[of _ N]) simp
      then show ?thesis ..
    qed
  qed
  have not13: "\<not> Run 13"
  proof
    assume r: "Run 13"
    then have "\<forall>v \<in> set (map snd (progressById (H 13))). v = 100"
      by (auto simp: Run_def)
    moreover have "length (progressById (H 13)) = tot"
      using r by (simp add: Run_def)
    ultimately have "overall_of (progressById (H 13)) tot = 100"
      using tot_pos by (intro overall_full) auto
    then show False
      using r by (auto simp: Run_def)
  qed
  from dich[of 13] not13 obtain N where N: "1 \<le> N" "N \<le> 13" "\<forall>m<N. Run m" "Done N"
    by blast
  have stable: "H m = H N" if "N \<le> m" for m
    using that
  proof (induction m)
    case 0
    then show ?case by simp
  next
    case (Suc m)
    show ?case
    proof (cases "N \<le> m")
      case True
      then have eq: "H m = H N"
        by (rule Suc.IH)
      have "find (\<lambda>u. t_handle u = hnd) (timers (H m)) = None"
        using N(4) by (simp add: eq Done_def)
      then have "H (Suc m) = H m"
        by (simp add: H_Suc tick_no_timer)
      with eq show ?thesis by simp
    next
      case False
      with Suc.prems have "Suc m = N" by simp
      then show ?thesis by simp
    qed
  qed
  have before: "list_all2 ?R (progressById (H n)) (progressById (H (Suc n)))
      \<and> batchProgress (H n) < 100 \<and> timers (H n) \<noteq> []
      \<and> exportCompleted (H n) = exportCompleted h" if "n < N" for n
  proof -
    have r: "Run n"
      using N(3) that by simp
    have "progressById (H (Suc n)) = advance (rnd n) (progressById (H n))"
      using tick_progress(1)[OF found[OF r], of "rnd n"] by (simp add: H_Suc)
    moreover have "\<forall>k. 0 \<le> rnd n k \<and> rnd n k < 1"
      using rng by simp
    ultimately have "list_all2 ?R (progressById (H n)) (progressById (H (Suc n)))"
      using advance_step[of "rnd n" "progressById (H n)"] by simp
    then show ?thesis
      using r by (simp add: Run_def)
  qed
  have fin: "batchProgress (H N) = 100" "timers (H N) = []" "\<not> isExporting (H N)"
    "exportCompleted (H N) = exportCompleted h @ [res]"
    using N(4) by (simp_all add: Done_def)
  have "startExport now h = Inr h0
      \<and> progressById h0 = map (\<lambda>i. (item_id i, 0)) sel
      \<and> 1 \<le> N \<and> N \<le> 13
      \<and> (\<forall>n<N. list_all2 ?R (progressById (H n)) (progressById (H (Suc n)))
            \<and> batchProgress (H n) < 100 \<and> timers (H n) \<noteq> []
            \<and> exportCompleted (H n) = exportCompleted h)
      \<and> batchProgress (H N) = 100 \<and> timers (H N) = [] \<and> \<not> isExporting (H N)
      \<and> exportCompleted (H N) = exportCompleted h @ [res]
      \<and> (\<forall>m\<ge>N. H m = H N)"
    using start h0_prog N(1,2) before fin stable by blast
  then show ?thesis
    unfolding H_def hnd_def res_def tot_def sel_def by blast
qed

section \<open>A second start while a batch is running\<close>

lemma overall_single:
  assumes "0 \<le> v" "v \<le> 100"
  shows "overall_of [(k, v)] 1 = v"
proof -
  have "js_round (fl64 (fl64 (real_of_int v / real (1 * 100)) * 100)) = round (real_of_int v / real 1)
        \<or> (real_of_int v / real 1 - real_of_int \<lfloor>real_of_int v / real 1\<rfloor> = 1 / 2
           \<and> js_round (fl64 (fl64 (real_of_int v / real (1 * 100)) * 100))
               = \<lfloor>real_of_int v / real 1\<rfloor>)"
    using assms by (intro overall_nearest) simp_all
  then have "js_round (fl64 (fl64 (real_of_int v / real (1 * 100)) * 100)) = v"
    by simp
  then show ?thesis
    by (simp add: overall_of_def sum_arr_def)
qed

lemma advance_single:
  "advance (\<lambda>k. 31 / 32) [(k, v)] = [(k, if v < 100 then min 100 (v + 20) else v)]"
proof -
  have b: "fl64 (93 / 8) = 93 / 8"
    using fl64_eval_big[of 3 "93 / 8"] by (simp add: rne_def)
  show ?thesis
    by (simp add: advance_def Let_def b js_round_def)
qed

lemma single_tick_running:
  assumes "find (\<lambda>t. t_handle t = hnd) (timers h) = Some t" "t_total t = 1"
    and "progressById h = [(k, v)]" "0 \<le> v" "v < 80"
  shows "progressById (tick hnd (\<lambda>k. 31 / 32) h) = [(k, v + 20)]"
    and "batchProgress (tick hnd (\<lambda>k. 31 / 32) h) = v + 20"
    and "timers (tick hnd (\<lambda>k. 31 / 32) h) = timers h"
    and "exportCompleted (tick hnd (\<lambda>k. 31 / 32) h) = exportCompleted h"
proof -
  have a: "advance (\<lambda>k. 31 / 32) (progressById h) = [(k, v + 20)]"
    using assms(5) by (simp add: assms(3) advance_single)
  have o: "overall_of [(k, v + 20)] (t_total t) = v + 20"
    unfolding assms(2) using assms(4,5) by (intro overall_single) simp_all
  have lt: "overall_of (advance (\<lambda>k. 31 / 32) (progressById h)) (t_total t) < 100"
    unfolding a o using assms(5) by simp
  note r = tick_running[OF assms(1) lt]
  show "progressById (tick hnd (\<lambda>k. 31 / 32) h) = [(k, v + 20)]"
    unfolding r by (simp add: a)
  show "batchProgress (tick hnd (\<lambda>k. 31 / 32) h) = v + 20"
    unfolding r by (simp add: a o)
  show "timers (tick hnd (\<lambda>k. 31 / 32) h) = timers h"
    unfolding r by simp
  show "exportCompleted (tick hnd (\<lambda>k. 31 / 32) h) = exportCompleted h"
    unfolding r by simp
qed

lemma single_tick_complete:
  assumes "find (\<lambda>t. t_handle t = hnd) (timers h) = Some t" "t_total t = 1"
    and "progressById h = [(k, v)]" "80 \<le> v" "v \<le> 100"
  shows "progressById (tick hnd (\<lambda>k. 31 / 32) h) = [(k, 100)]"
    and "batchProgress (tick hnd (\<lambda>k. 31 / 32) h) = 100"
    and "timers (tick hnd (\<lambda>k. 31 / 32) h) = filter (\<lambda>u. t_handle u \<noteq> hnd) (timers h)"
    and "exportCompleted (tick hnd (\<lambda>k. 31 / 32) h) =
           exportCompleted h @
             [\<lparr>batchId = ''batch_'' @ toStringRadix 10 (t_start t), success = True,
               processedCount = 1, totalCount = 1, archiveSizeBytes = t_archive t\<rparr>]"
    and "\<not> isExporting (tick hnd (\<lambda>k. 31 / 32) h)"
proof -
  have a: "advance (\<lambda>k. 31 / 32) (progressById h) = [(k, 100)]"
    using assms(4,5) by (simp add: assms(3) advance_single)
  have o: "overall_of [(k, 100)] (t_total t) = 100"
    unfolding assms(2) by (intro overall_single) simp_all
  have ge: "100 \<le> overall_of (advance (\<lambda>k. 31 / 32) (progressById h)) (t_total t)"
    unfolding a o by simp
  note r = tick_complete[OF assms(1) ge]
  show "progressById (tick hnd (\<lambda>k. 31 / 32) h) = [(k, 100)]"
    unfolding r by (simp add: a)
  show "batchProgress (tick hnd (\<lambda>k. 31 / 32) h) = 100"
    unfolding r by (simp add: a o)
  show "timers (tick hnd (\<lambda>k. 31 / 32) h) = filter (\<lambda>u. t_handle u \<noteq> hnd) (timers h)"
    unfolding r by simp
  show "exportCompleted (tick hnd (\<lambda>k. 31 / 32) h) =
           exportCompleted h @
             [\<lparr>batchId = ''batch_'' @ toStringRadix 10 (t_start t), success = True,
               processedCount = 1, totalCount = 1, archiveSizeBytes = t_archive t\<rparr>]"
    unfolding r by (simp add: assms(2))
  show "\<not> isExporting (tick hnd (\<lambda>k. 31 / 32) h)"
    unfolding r by simp
qed

text \<open>
  C3. A hub mounted with one item and the web profile. The export is started at time 0,
  and started again at time 5 with one of the start buttons that stay enabled while the
  hub is exporting. The second start resets the counter and creates a second timer; the
  first timer is not cleared. With every random draw at 31 / 32 each run adds 20, and the
  two callbacks run in turn. The fifth run, of the first timer, takes the overall progress
  to 100, clears that timer and reports the result of the batch of time 0. The second
  timer is still live: its next run changes the state again and reports a second result.
\<close>

theorem restart_reports_twice:
  "let a = \<lparr>item_id = ''a'', item_name = ''arrow'', bytes = 1000, tags = None\<rparr>;
       h1 = projr (startExport 0 (mountHub (Preset Web) [a]));
       h2 = projr (startExport 5 h1);
       r = (\<lambda>k. 31 / 32);
       h7 = tick 0 r (tick 1 r (tick 0 r (tick 1 r (tick 0 r h2))));
       h8 = tick 1 r h7
   in isExporting h1
      \<and> canExport (items h1) (state h1)
      \<and> \<not> isl (startExport 5 h1)
      \<and> map t_handle (timers h2) = [0, 1]
      \<and> progressById h2 = [(''a'', 0)]
      \<and> progressById h7 = [(''a'', 100)]
      \<and> batchProgress h7 = 100
      \<and> map batchId (exportCompleted h7) = [''batch_0'']
      \<and> map t_handle (timers h7) = [1]
      \<and> h8 \<noteq> h7
      \<and> batchProgress h8 = 100
      \<and> map batchId (exportCompleted h8) = [''batch_0'', ''batch_5'']
      \<and> map success (exportCompleted h8) = [True, True]
      \<and> timers h8 = []"
proof -
  define a where "a = \<lparr>item_id = ''a'', item_name = ''arrow'', bytes = 1000, tags = None\<rparr>"
  define h where "h = mountHub (Preset Web) [a]"
  define h1 where "h1 = projr (startExport 0 h)"
  define h2 where "h2 = projr (startExport 5 h1)"
  define r :: "string \<Rightarrow> real" where "r = (\<lambda>k. 31 / 32)"
  define A where "A = total (estimates [a] (state h))"
  define t0 where "t0 = \<lparr>t_handle = 0, t_start = 0, t_total = 1, t_archive = A\<rparr>"
  define t1 where "t1 = \<lparr>t_handle = 1, t_start = 5, t_total = 1, t_archive = A\<rparr>"
  define k1 where "k1 = tick 0 r h2"
  define k2 where "k2 = tick 1 r k1"
  define k3 where "k3 = tick 0 r k2"
  define k4 where "k4 = tick 1 r k3"
  define h7 where "h7 = tick 0 r k4"
  define h8 where "h8 = tick 1 r h7"
  have mi: "timers h = []" "nextHandle h = 0" "exportCompleted h = []" "items h = [a]"
    by (simp_all add: h_def mount_idle)
  have sel: "selectedItems (items h) (state h) = [a]"
    by (simp add: h_def mount_idle mount_all_selected)
  then have ne: "selectedItems (items h) (state h) \<noteq> []"
    by simp
  note s1 = startExport_fields[OF ne, of 0, folded h1_def]
  have sel1: "selectedItems (items h1) (state h1) = [a]"
    by (simp add: s1 sel)
  then have ne1: "selectedItems (items h1) (state h1) \<noteq> []"
    by simp
  note s2 = startExport_fields[OF ne1, of 5, folded h2_def]
  have tm1: "timers h1 = [t0]"
    unfolding s1(2) sel by (simp add: mi t0_def A_def)
  have tm2: "timers h2 = [t0, t1]"
    unfolding s2(2) tm1 sel1 by (simp add: s1 t1_def A_def mi)
  have p2: "progressById h2 = [(''a'', 0)]"
    unfolding s2(3) sel1 by (simp add: rec_assign_def a_def)
  have c2: "exportCompleted h2 = []"
    by (simp add: s2 s1 mi)
  have can: "canExport (items h1) (state h1)"
    unfolding canExport_def sel1 by (simp add: s1 h_def mount_web_formats)
  have f0: "find (\<lambda>t. t_handle t = 0) [t0, t1] = Some t0"
    and f1: "find (\<lambda>t. t_handle t = 1) [t0, t1] = Some t1"
    and f1': "find (\<lambda>t. t_handle t = 1) [t1] = Some t1"
    and tt: "t_total t0 = 1" "t_total t1 = 1"
    by (simp_all add: t0_def t1_def)
  note q1 = single_tick_running[of 0 h2 t0 "''a''" 0, folded r_def k1_def, unfolded tm2, OF f0 tt(1) p2]
  have e1: "progressById k1 = [(''a'', 20)]" "timers k1 = [t0, t1]" "exportCompleted k1 = []"
    using q1 by (simp_all add: c2)
  note q2 = single_tick_running[of 1 k1 t1 "''a''" 20, folded r_def k2_def, unfolded e1(2), OF f1 tt(2) e1(1)]
  have e2: "progressById k2 = [(''a'', 40)]" "timers k2 = [t0, t1]" "exportCompleted k2 = []"
    using q2 by (simp_all add: e1)
  note q3 = single_tick_running[of 0 k2 t0 "''a''" 40, folded r_def k3_def, unfolded e2(2), OF f0 tt(1) e2(1)]
  have e3: "progressById k3 = [(''a'', 60)]" "timers k3 = [t0, t1]" "exportCompleted k3 = []"
    using q3 by (simp_all add: e2)
  note q4 = single_tick_running[of 1 k3 t1 "''a''" 60, folded r_def k4_def, unfolded e3(2), OF f1 tt(2) e3(1)]
  have e4: "progressById k4 = [(''a'', 80)]" "timers k4 = [t0, t1]" "exportCompleted k4 = []"
    using q4 by (simp_all add: e3)
  note q5 = single_tick_complete[of 0 k4 t0 "''a''" 80, folded r_def h7_def, unfolded e4(2), OF f0 tt(1) e4(1)]
  have ts: "toStringRadix 10 0 = ''0''" "toStringRadix 10 5 = ''5''"
    by (simp_all add: digit_char_def)
  have e5: "progressById h7 = [(''a'', 100)]" "batchProgress h7 = 100" "timers h7 = [t1]"
    "exportCompleted h7 =
       [\<lparr>batchId = ''batch_0'', success = True, processedCount = 1, totalCount = 1,
         archiveSizeBytes = A\<rparr>]"
    using q5 by (simp_all add: e4 t0_def t1_def ts digit_char_def)
  note q6 = single_tick_complete[of 1 h7 t1 "''a''" 100, folded r_def h8_def, unfolded e5(3), OF f1' tt(2) e5(1)]
  have e6: "batchProgress h8 = 100" "timers h8 = []"
    "exportCompleted h8 =
       [\<lparr>batchId = ''batch_0'', success = True, processedCount = 1, totalCount = 1,
         archiveSizeBytes = A\<rparr>,
        \<lparr>batchId = ''batch_5'', success = True, processedCount = 1, totalCount = 1,
         archiveSizeBytes = A\<rparr>]"
    using q6 by (simp_all add: e5 t1_def ts digit_char_def)
  have ne87: "h8 \<noteq> h7"
  proof
    assume "h8 = h7"
    then have "exportCompleted h8 = exportCompleted h7"
      by simp
    then show False
      unfolding e5 e6 by simp
  qed
  have "isExporting h1 \<and> canExport (items h1) (state h1) \<and> \<not> isl (startExport 5 h1)
      \<and> map t_handle (timers h2) = [0, 1] \<and> progressById h2 = [(''a'', 0)]
      \<and> progressById h7 = [(''a'', 100)] \<and> batchProgress h7 = 100
      \<and> map batchId (exportCompleted h7) = [''batch_0'']
      \<and> map t_handle (timers h7) = [1]
      \<and> h8 \<noteq> h7 \<and> batchProgress h8 = 100
      \<and> map batchId (exportCompleted h8) = [''batch_0'', ''batch_5'']
      \<and> map success (exportCompleted h8) = [True, True]
      \<and> timers h8 = []"
    using s1(4) can s2(1) p2 ne87 by (simp add: tm2 e5 e6 t0_def t1_def)
  then show ?thesis
    unfolding Let_def h8_def h7_def k4_def k3_def k2_def k1_def r_def h2_def h1_def h_def a_def .
qed

text \<open>
  An item whose id is \<^verbatim>\<open>__proto__\<close> counts as selected and gets no counter. A batch of
  that item alone has no counter at all: every run of the callback reports an overall
  progress of 0, the timer stays live, and no result is ever reported.
\<close>

lemma proto_batch_never_completes:
  "batchProgress (ticks 0 rnd n (projr (startExport 0 (mountHub (Preset Web)
      [\<lparr>item_id = ''__proto__'', item_name = ''arrow'', bytes = 1000, tags = None\<rparr>])))) = 0
   \<and> exportCompleted (ticks 0 rnd n (projr (startExport 0 (mountHub (Preset Web)
      [\<lparr>item_id = ''__proto__'', item_name = ''arrow'', bytes = 1000, tags = None\<rparr>])))) = []
   \<and> map t_handle (timers (ticks 0 rnd n (projr (startExport 0 (mountHub (Preset Web)
      [\<lparr>item_id = ''__proto__'', item_name = ''arrow'', bytes = 1000, tags = None\<rparr>]))))) = [0]
   \<and> progressById (ticks 0 rnd n (projr (startExport 0 (mountHub (Preset Web)
      [\<lparr>item_id = ''__proto__'', item_name = ''arrow'', bytes = 1000, tags = None\<rparr>])))) = []"
proof -
  define its where
    "its = [\<lparr>item_id = ''__proto__'', item_name = ''arrow'', bytes = 1000, tags = None\<rparr>]"
  define h0 where "h0 = projr (startExport 0 (mountHub (Preset Web) its))"
  define t where "t = \<lparr>t_handle = 0, t_start = 0, t_total = 1,
                        t_archive = total (estimates its (state (mountHub (Preset Web) its)))\<rparr>"
  have ne: "its \<noteq> []"
    by (simp add: its_def)
  have sel: "selectedItems (items (mountHub (Preset Web) its)) (state (mountHub (Preset Web) its)) \<noteq> []"
    using ne by (simp add: mount_idle mount_all_selected)
  have tm: "timers h0 = [t]"
    unfolding h0_def started_mount(1)[OF ne] by (simp add: t_def its_def)
  have p0: "progressById h0 = []"
    unfolding h0_def started_mount(2)[OF ne] by (simp add: rec_assign_def its_def)
  have c0: "exportCompleted h0 = []" "batchProgress h0 = 0"
    unfolding h0_def by (simp_all add: startExport_fields[OF sel] mount_idle)
  have ov: "overall_of [] (t_total t) = 0"
    by (simp add: overall_of_def sum_arr_def js_round_def t_def)
  have inv: "timers (ticks 0 rnd n h0) = [t] \<and> progressById (ticks 0 rnd n h0) = []
      \<and> exportCompleted (ticks 0 rnd n h0) = [] \<and> batchProgress (ticks 0 rnd n h0) = 0"
  proof (induction n)
    case 0
    then show ?case
      by (simp add: tm p0 c0)
  next
    case (Suc n)
    define k where "k = ticks 0 rnd n h0"
    have f: "find (\<lambda>u. t_handle u = 0) (timers k) = Some t"
      using Suc by (simp add: k_def t_def)
    have a: "advance (rnd n) (progressById k) = []"
      using Suc by (simp add: k_def advance_def)
    have lt: "overall_of (advance (rnd n) (progressById k)) (t_total t) < 100"
      unfolding a ov by simp
    have "tick 0 (rnd n) k = k\<lparr>batchProgress := 0, progressById := []\<rparr>"
      using tick_running[OF f lt] unfolding a ov .
    then show ?case
      using Suc by (simp add: k_def[symmetric])
  qed
  then show ?thesis
    unfolding h0_def its_def by (simp add: t_def)
qed

section \<open>Properties of the audit: duplicate groups\<close>

lemma group_step_lookup:
  fixes step :: "(string \<times> string list) list \<Rightarrow> IconItem \<Rightarrow> (string \<times> string list) list"
  defines "step \<equiv> \<lambda>m icon.
              let key = iconKey icon;
                  arr = (case map_of m key of Some a \<Rightarrow> a | None \<Rightarrow> [])
              in AList.update key (arr @ [icon_id icon]) m"
  shows "map_of (foldl step m0 ics) k
   = (if \<exists>i \<in> set ics. iconKey i = k
      then Some ((case map_of m0 k of Some a \<Rightarrow> a | None \<Rightarrow> [])
                 @ map icon_id (filter (\<lambda>i. iconKey i = k) ics))
      else map_of m0 k)"
proof (induction ics arbitrary: m0)
  case Nil
  then show ?case by simp
next
  case (Cons i ics)
  have one: "map_of (step m0 i) k' =
      (if k' = iconKey i
       then Some ((case map_of m0 k' of Some a \<Rightarrow> a | None \<Rightarrow> []) @ [icon_id i])
       else map_of m0 k')" for k'
    by (simp add: step_def Let_def update_conv')
  show ?case
    by (simp only: foldl_Cons Cons.IH one) (auto split: option.splits)
qed

lemma group_step_distinct:
  fixes step :: "(string \<times> string list) list \<Rightarrow> IconItem \<Rightarrow> (string \<times> string list) list"
  defines "step \<equiv> \<lambda>m icon.
              let key = iconKey icon;
                  arr = (case map_of m key of Some a \<Rightarrow> a | None \<Rightarrow> [])
              in AList.update key (arr @ [icon_id icon]) m"
  shows "distinct (map fst m0) \<Longrightarrow> distinct (map fst (foldl step m0 ics))"
proof (induction ics arbitrary: m0)
  case Nil
  then show ?case by simp
next
  case (Cons i ics)
  have "distinct (map fst (step m0 i))"
    using Cons.prems by (simp add: step_def Let_def distinct_update)
  then show ?case
    by (simp only: foldl_Cons Cons.IH)
qed

lemma groupByHash_distinct: "distinct (map fst (groupByHash ics))"
  unfolding groupByHash_def by (rule group_step_distinct) simp

lemma groupByHash_entry:
  "(k, ids) \<in> set (groupByHash ics) \<longleftrightarrow>
     (\<exists>i \<in> set ics. iconKey i = k) \<and> ids = map icon_id (filter (\<lambda>i. iconKey i = k) ics)"
proof -
  have "(k, ids) \<in> set (groupByHash ics) \<longleftrightarrow> map_of (groupByHash ics) k = Some ids"
    using groupByHash_distinct by (simp add: map_of_eq_Some_iff)
  also have "\<dots> \<longleftrightarrow> (\<exists>i \<in> set ics. iconKey i = k)
                    \<and> ids = map icon_id (filter (\<lambda>i. iconKey i = k) ics)"
    unfolding groupByHash_def group_step_lookup by auto
  finally show ?thesis .
qed

lemma duplicates_eq:
  "duplicates (computeAudit c) =
     filter (\<lambda>d. 1 < length (dup_iconIds d))
       (map (\<lambda>(h, ids). \<lparr>dup_hash = h, dup_iconIds = ids\<rparr>) (groupByHash (icons c)))"
  by (simp add: computeAudit_def Let_def)

lemma duplicates_member:
  "g \<in> set (duplicates (computeAudit c)) \<longleftrightarrow>
     (\<exists>k. g = \<lparr>dup_hash = k, dup_iconIds = spec_members k c\<rparr> \<and> 2 \<le> length (spec_members k c))"
proof
  assume "g \<in> set (duplicates (computeAudit c))"
  then obtain k ids where e: "(k, ids) \<in> set (groupByHash (icons c))"
    and g: "g = \<lparr>dup_hash = k, dup_iconIds = ids\<rparr>" and l: "1 < length ids"
    by (auto simp: duplicates_eq)
  from e have "ids = spec_members k c"
    by (simp add: groupByHash_entry spec_members_def)
  with g l show "\<exists>k. g = \<lparr>dup_hash = k, dup_iconIds = spec_members k c\<rparr>
                    \<and> 2 \<le> length (spec_members k c)"
    by auto
next
  assume "\<exists>k. g = \<lparr>dup_hash = k, dup_iconIds = spec_members k c\<rparr> \<and> 2 \<le> length (spec_members k c)"
  then obtain k where g: "g = \<lparr>dup_hash = k, dup_iconIds = spec_members k c\<rparr>"
    and l: "2 \<le> length (spec_members k c)"
    by blast
  from l have "filter (\<lambda>i. iconKey i = k) (icons c) \<noteq> []"
    by (auto simp: spec_members_def)
  then have "\<exists>i \<in> set (icons c). iconKey i = k"
    by (metis (mono_tags, lifting) filter_False)
  then have "(k, spec_members k c) \<in> set (groupByHash (icons c))"
    by (simp add: groupByHash_entry spec_members_def)
  then have "\<lparr>dup_hash = k, dup_iconIds = spec_members k c\<rparr>
               \<in> set (map (\<lambda>(h, ids). \<lparr>dup_hash = h, dup_iconIds = ids\<rparr>) (groupByHash (icons c)))"
    by force
  then show "g \<in> set (duplicates (computeAudit c))"
    using g l by (simp add: duplicates_eq)
qed

lemma duplicates_distinct: "distinct (map dup_hash (duplicates (computeAudit c)))"
proof -
  have "map dup_hash (filter P (map (\<lambda>(h, ids). \<lparr>dup_hash = h, dup_iconIds = ids\<rparr>) m))
          = map fst (filter (\<lambda>(h, ids). P \<lparr>dup_hash = h, dup_iconIds = ids\<rparr>) m)" for P m
    by (induction m) auto
  then show ?thesis
    using groupByHash_distinct[of "icons c"]
    by (simp add: duplicates_eq distinct_map_filter)
qed

section \<open>Properties of the audit: frequencies\<close>

lemma freq_step_lookup:
  fixes step :: "(real \<times> nat) list \<Rightarrow> real \<Rightarrow> (real \<times> nat) list"
  defines "step \<equiv> \<lambda>freq w.
     AList.update w ((case map_of freq w of Some c \<Rightarrow> c | None \<Rightarrow> 0) + 1) freq"
  shows "map_of (foldl step m0 ws) w
   = (if w \<in> set ws
      then Some ((case map_of m0 w of Some c \<Rightarrow> c | None \<Rightarrow> 0) + count_list ws w)
      else map_of m0 w)"
proof (induction ws arbitrary: m0)
  case Nil
  then show ?case by simp
next
  case (Cons x ws)
  have one: "map_of (step m0 x) w' =
      (if w' = x then Some ((case map_of m0 w' of Some c \<Rightarrow> c | None \<Rightarrow> 0) + 1)
       else map_of m0 w')" for w'
    by (simp add: step_def update_conv')
  show ?case
    by (simp only: foldl_Cons Cons.IH one) (auto split: option.splits)
qed

lemma freq_step_keys:
  fixes step :: "(real \<times> nat) list \<Rightarrow> real \<Rightarrow> (real \<times> nat) list"
  defines "step \<equiv> \<lambda>freq w.
     AList.update w ((case map_of freq w of Some c \<Rightarrow> c | None \<Rightarrow> 0) + 1) freq"
  shows "map fst (foldl step m0 ws) = foldl (\<lambda>acc x. set_add x acc) (map fst m0) ws"
proof (induction ws arbitrary: m0)
  case Nil
  then show ?case by simp
next
  case (Cons x ws)
  have "map fst (step m0 x) = set_add x (map fst m0)"
    by (simp add: step_def update_keys set_add_def)
  then show ?case
    by (simp only: foldl_Cons Cons.IH)
qed

lemma frequencies_keys: "map fst (frequencies ws) = new_Set ws"
  unfolding frequencies_def new_Set_def using freq_step_keys[of "[]" ws] by simp

lemma set_add_fold_set: "set (foldl (\<lambda>acc x. set_add x acc) acc xs) = set acc \<union> set xs"
  by (induction xs arbitrary: acc) (auto simp: set_add_def)

lemma set_add_fold_distinct:
  "distinct acc \<Longrightarrow> distinct (foldl (\<lambda>acc x. set_add x acc) acc xs)"
  by (induction xs arbitrary: acc) (auto simp: set_add_def)

lemma set_add_fold_prefix: "\<exists>zs. foldl (\<lambda>acc x. set_add x acc) acc xs = acc @ zs"
proof (induction xs arbitrary: acc)
  case Nil
  then show ?case by simp
next
  case (Cons x xs)
  obtain zs where "foldl (\<lambda>acc x. set_add x acc) (set_add x acc) xs = set_add x acc @ zs"
    using Cons.IH by blast
  then show ?case
    by (cases "x \<in> set acc") (auto simp: set_add_def)
qed

lemma set_add_fold_filter:
  "filter P (foldl (\<lambda>acc x. set_add x acc) acc xs)
     = foldl (\<lambda>acc x. set_add x acc) (filter P acc) (filter P xs)"
proof (induction xs arbitrary: acc)
  case Nil
  then show ?case by simp
next
  case (Cons x xs)
  have "filter P (set_add x acc) = (if P x then set_add x (filter P acc) else filter P acc)"
    by (auto simp: set_add_def)
  then show ?case
    by (simp add: Cons.IH)
qed

lemma hd_filter_new_Set:
  assumes "filter P xs \<noteq> []"
  shows "hd (filter P (new_Set xs)) = hd (filter P xs)"
proof -
  obtain y ys where f: "filter P xs = y # ys"
    using assms by (cases "filter P xs") auto
  have "filter P (new_Set xs) = foldl (\<lambda>acc x. set_add x acc) [] (y # ys)"
    using set_add_fold_filter[of P "[]" xs] by (simp add: new_Set_def f)
  also have "\<dots> = foldl (\<lambda>acc x. set_add x acc) [y] ys"
    by (simp add: set_add_def)
  finally obtain zs where "filter P (new_Set xs) = [y] @ zs"
    using set_add_fold_prefix[of "[y]" ys] by auto
  then show ?thesis
    by (simp add: f)
qed

lemma frequencies_entry:
  assumes "(w, c) \<in> set (frequencies ws)"
  shows "w \<in> set ws \<and> c = count_list ws w"
proof -
  have d: "distinct (map fst (frequencies ws))"
    by (simp add: frequencies_keys new_Set_def set_add_fold_distinct)
  have "w \<in> set (map fst (frequencies ws))"
    using assms by force
  then have w: "w \<in> set ws"
    by (simp add: frequencies_keys new_Set_def set_add_fold_set)
  have "map_of (frequencies ws) w = Some c"
    using assms d by simp
  then have "c = count_list ws w"
    using w freq_step_lookup[of "[]" ws w] by (simp add: frequencies_def)
  with w show ?thesis ..
qed

lemma pickTarget_split:
  "(\<exists>pre post. freq = pre @ pickTarget (t, b) freq # post
       \<and> (\<forall>e \<in> set pre. snd e < snd (pickTarget (t, b) freq))
       \<and> (\<forall>e \<in> set post. snd e \<le> snd (pickTarget (t, b) freq))
       \<and> b < snd (pickTarget (t, b) freq))
   \<or> (pickTarget (t, b) freq = (t, b) \<and> (\<forall>e \<in> set freq. snd e \<le> b))"
proof (induction freq rule: rev_induct)
  case Nil
  then show ?case by (simp add: pickTarget_def)
next
  case (snoc e freq)
  obtain w c where e: "e = (w, c)"
    by (cases e)
  obtain t' b' where r: "pickTarget (t, b) freq = (t', b')"
    by (cases "pickTarget (t, b) freq")
  have last: "pickTarget (t, b) (freq @ [e]) = (if b' < c then (w, c) else (t', b'))"
    by (simp add: pickTarget_def e r[unfolded pickTarget_def])
  have mono: "b \<le> b'" "\<forall>x \<in> set freq. snd x \<le> b'"
    using snoc.IH unfolding r by (fastforce simp: less_imp_le)+
  show ?case
  proof (cases "b' < c")
    case True
    then have p: "pickTarget (t, b) (freq @ [e]) = e"
      unfolding last by (simp add: e)
    have "freq @ [e] = freq @ e # []"
      by simp
    moreover have "\<forall>x \<in> set freq. snd x < snd e"
      using mono True by (auto simp: e)
    moreover have "b < snd e"
      using mono True by (simp add: e)
    ultimately show ?thesis
      unfolding p by (intro disjI1 exI[of _ freq] exI[of _ "[]"]) simp
  next
    case False
    then have p: "pickTarget (t, b) (freq @ [e]) = (t', b')"
      unfolding last by simp
    from snoc.IH show ?thesis
    proof
      assume "\<exists>pre post. freq = pre @ pickTarget (t, b) freq # post
         \<and> (\<forall>e \<in> set pre. snd e < snd (pickTarget (t, b) freq))
         \<and> (\<forall>e \<in> set post. snd e \<le> snd (pickTarget (t, b) freq))
         \<and> b < snd (pickTarget (t, b) freq)"
      then obtain pre post where d: "freq = pre @ (t', b') # post"
        "\<forall>e \<in> set pre. snd e < b'" "\<forall>e \<in> set post. snd e \<le> b'" "b < b'"
        unfolding r by auto
      have "freq @ [e] = pre @ (t', b') # (post @ [e])"
        using d(1) by simp
      moreover have "\<forall>x \<in> set (post @ [e]). snd x \<le> b'"
        using d(3) False by (auto simp: e)
      ultimately show ?thesis
        unfolding p using d(2,4)
        by (intro disjI1 exI[of _ pre] exI[of _ "post @ [e]"]) simp
    next
      assume "pickTarget (t, b) freq = (t, b) \<and> (\<forall>e \<in> set freq. snd e \<le> b)"
      then have "(t', b') = (t, b)" "\<forall>x \<in> set freq. snd x \<le> b"
        unfolding r by auto
      then show ?thesis
        unfolding p using False by (intro disjI2) (auto simp: e)
    qed
  qed
qed

section \<open>Properties of the audit: the modal weight and the total\<close>

lemma frequencies_has_entry:
  assumes "w \<in> set ws"
  shows "(w, count_list ws w) \<in> set (frequencies ws)"
proof -
  have "w \<in> set (map fst (frequencies ws))"
    using assms by (simp add: frequencies_keys new_Set_def set_add_fold_set)
  then obtain c where "(w, c) \<in> set (frequencies ws)"
    by auto
  then show ?thesis
    using frequencies_entry[of w c ws] by simp
qed

lemma count_list_pos: "w \<in> set ws \<Longrightarrow> 0 < count_list ws w"
  by (induction ws) auto

lemma pickTarget_is_mode:
  assumes "ws \<noteq> []"
  shows "fst (pickTarget (w0, 0) (frequencies ws)) = spec_mode ws"
proof -
  define es where "es = frequencies ws"
  define r where "r = pickTarget (w0, 0) es"
  define Q where "Q w \<longleftrightarrow> list_all (\<lambda>w'. count_list ws w' \<le> count_list ws w) ws" for w
  obtain x where x: "x \<in> set ws"
    using assms by (cases ws) auto
  have ex: "(x, count_list ws x) \<in> set es"
    unfolding es_def by (rule frequencies_has_entry[OF x])
  have "\<not> (\<forall>e \<in> set es. snd e \<le> 0)"
    using ex count_list_pos[OF x] by force
  with pickTarget_split[of es w0 0] obtain pre post where
    d: "es = pre @ r # post" and lt: "\<forall>e \<in> set pre. snd e < snd r"
    and le: "\<forall>e \<in> set post. snd e \<le> snd r"
    unfolding r_def by blast
  have ent: "fst e \<in> set ws \<and> snd e = count_list ws (fst e)" if "e \<in> set es" for e
    using frequencies_entry[of "fst e" "snd e" ws] that by (simp add: es_def)
  have rin: "r \<in> set es"
    by (simp add: d)
  have tw: "fst r \<in> set ws" and bm: "snd r = count_list ws (fst r)"
    using ent[OF rin] by simp_all
  have all_le: "count_list ws w' \<le> snd r" if "w' \<in> set ws" for w'
  proof -
    have "(w', count_list ws w') \<in> set es"
      unfolding es_def by (rule frequencies_has_entry[OF that])
    then have "(w', count_list ws w') \<in> set pre \<or> (w', count_list ws w') = r
                \<or> (w', count_list ws w') \<in> set post"
      by (auto simp: d)
    then show ?thesis
      using lt le by force
  qed
  have Qr: "Q (fst r)"
    unfolding Q_def list_all_iff using all_le bm by simp
  have nQ: "\<not> Q (fst e)" if "e \<in> set pre" for e
  proof
    assume q: "Q (fst e)"
    have "e \<in> set es"
      using that by (simp add: d)
    then have "snd e = count_list ws (fst e)"
      using ent by simp
    moreover have "count_list ws (fst r) \<le> count_list ws (fst e)"
      using q tw unfolding Q_def list_all_iff by simp
    ultimately show False
      using lt that bm by force
  qed
  have "filter Q (map fst pre) = []"
    using nQ by (induction pre) auto
  then have "filter Q (map fst es) = fst r # filter Q (map fst post)"
    using Qr by (simp add: d)
  then have "hd (filter Q (new_Set ws)) = fst r"
    by (simp add: es_def frequencies_keys)
  moreover have "filter Q ws \<noteq> []"
    using tw Qr by (auto simp: filter_empty_conv)
  ultimately have "hd (filter Q ws) = fst r"
    using hd_filter_new_Set[of Q ws] by simp
  then show ?thesis
    unfolding spec_mode_def r_def es_def Q_def by simp
qed

lemma map_filter_weights: "List.map_filter strokeWeight ics
    = concat (map (\<lambda>i. case strokeWeight i of Some w \<Rightarrow> [w] | None \<Rightarrow> []) ics)"
  by (induction ics) (auto simp: List.map_filter_simps split: option.splits)

lemma mixedStroke_raw:
  "mixedStroke (computeAudit c) =
     (case spec_weights c of
        [] \<Rightarrow> None
      | w0 # _ \<Rightarrow>
          let targetW = fst (pickTarget (w0, 0) (frequencies (spec_weights c)));
              differing =
                map icon_id
                  (filter (\<lambda>i. case strokeWeight i of Some w \<Rightarrow> w \<noteq> targetW | None \<Rightarrow> False)
                     (icons c))
          in if 0 < length differing
             then Some \<lparr>targetWeight = targetW, ms_iconIds = differing\<rparr>
             else None)"
proof -
  have w: "List.map_filter strokeWeight (icons c) = spec_weights c"
    by (simp add: map_filter_weights spec_weights_def)
  show ?thesis
    by (simp add: computeAudit_def Let_def w)
qed

lemma mixedStroke_eq:
  "mixedStroke (computeAudit c) =
     (if spec_outliers c = [] then None
      else Some \<lparr>targetWeight = spec_mode (spec_weights c), ms_iconIds = spec_outliers c\<rparr>)"
proof (cases "spec_weights c")
  case Nil
  then show ?thesis
    by (simp add: mixedStroke_raw spec_outliers_def)
next
  case (Cons w0 ws')
  have "fst (pickTarget (w0, 0) (frequencies (w0 # ws'))) = spec_mode (w0 # ws')"
    by (rule pickTarget_is_mode) simp
  then show ?thesis
    by (simp add: mixedStroke_raw spec_outliers_def Cons Let_def cong del: option.case_cong_weak)
qed

lemma offGrid_eq:
  "offGrid (computeAudit c) = map icon_id (filter (\<lambda>i. gridAligned i = Some False) (icons c))"
  by (simp add: computeAudit_def Let_def)

lemma foldl_plus_sum: "foldl (\<lambda>acc d. acc + f d) (a::int) xs = a + sum_list (map f xs)"
  by (induction xs arbitrary: a) auto

lemma totalIssues_eq:
  "totalIssues (computeAudit c) =
     sum_list (map (\<lambda>g. int (length (dup_iconIds g)) - 1) (duplicates (computeAudit c)))
     + int (length (spec_outliers c))
     + int (length (offGrid (computeAudit c)))"
proof -
  have "totalIssues (computeAudit c) =
     foldl (\<lambda>acc d. acc + (int (length (dup_iconIds d)) - 1)) 0 (duplicates (computeAudit c))
     + (case mixedStroke (computeAudit c) of Some m \<Rightarrow> int (length (ms_iconIds m)) | None \<Rightarrow> 0)
     + int (length (offGrid (computeAudit c)))"
    by (simp add: computeAudit_def Let_def)
  moreover have "(case mixedStroke (computeAudit c) of
                    Some m \<Rightarrow> int (length (ms_iconIds m)) | None \<Rightarrow> 0)
                 = int (length (spec_outliers c))"
    by (simp add: mixedStroke_eq)
  ultimately show ?thesis
    by (simp add: foldl_plus_sum)
qed

section \<open>The audit report\<close>

lemma three_icons_one_group:
  assumes "icons c = [a, b, d]" "icon_svg a = icon_svg b" "iconKey d \<noteq> iconKey a"
  shows "duplicates (computeAudit c) =
           [\<lparr>dup_hash = iconKey a, dup_iconIds = [icon_id a, icon_id b]\<rparr>]"
proof -
  have ab: "iconKey b = iconKey a"
    using assms(2) by (simp add: iconKey_def)
  have "groupByHash [a, b, d] =
          [(iconKey a, [icon_id a, icon_id b]), (iconKey d, [icon_id d])]"
    using assms(3) by (simp add: groupByHash_def Let_def ab)
  then show ?thesis
    by (simp add: duplicates_eq assms(1))
qed

lemma spec_mode_112: "spec_mode [1, 1, 2] = 1"
  by (simp add: spec_mode_def)

lemma weights_112:
  assumes "map strokeWeight (icons c) = [Some 1, Some 1, Some 2]"
  shows "mixedStroke (computeAudit c) =
           Some \<lparr>targetWeight = 1, ms_iconIds = [icon_id (icons c ! 2)]\<rparr>"
proof -
  from assms obtain a b d where i: "icons c = [a, b, d]"
    and w: "strokeWeight a = Some 1" "strokeWeight b = Some 1" "strokeWeight d = Some 2"
    by (auto simp: map_eq_Cons_conv)
  have sw: "spec_weights c = [1, 1, 2]"
    by (simp add: spec_weights_def i w)
  have "spec_outliers c = [icon_id d]"
    by (simp add: spec_outliers_def sw spec_mode_112 i w)
  then show ?thesis
    by (simp add: mixedStroke_eq sw spec_mode_112 i)
qed

text \<open>
  C7 (as amended). For every collection: the duplicate groups are exactly the groups of
  icon ids that share the hash of their trimmed markup and have at least two members, one
  group for a hash; the mixed-stroke entry is absent when no icon has a defined weight
  that differs from the modal weight, and otherwise names the modal weight (of equally
  frequent weights the first in iteration order) as target and these icons as outliers;
  and the total is the sum over the duplicate groups of their size minus one, plus the
  number of outliers, plus the number of off-grid icons. Three icons with the weights 1,
  1, 2 give the mode 1 with the third icon as the one outlier; three icons of which the
  first two share their markup and the third has a trimmed markup with another hash give
  exactly one duplicate group, of the first two, which counts as 1 issue.
\<close>

theorem audit_report:
  "(\<forall>g. g \<in> set (duplicates (computeAudit c)) \<longleftrightarrow>
          (\<exists>k. g = \<lparr>dup_hash = k, dup_iconIds = spec_members k c\<rparr>
               \<and> 2 \<le> length (spec_members k c)))
   \<and> distinct (map dup_hash (duplicates (computeAudit c)))
   \<and> mixedStroke (computeAudit c) =
       (if spec_outliers c = [] then None
        else Some \<lparr>targetWeight = spec_mode (spec_weights c), ms_iconIds = spec_outliers c\<rparr>)
   \<and> totalIssues (computeAudit c) =
       sum_list (map (\<lambda>g. int (length (dup_iconIds g)) - 1) (duplicates (computeAudit c)))
       + int (length (spec_outliers c))
       + int (length (offGrid (computeAudit c)))
   \<and> (map strokeWeight (icons c) = [Some 1, Some 1, Some 2] \<longrightarrow>
        mixedStroke (computeAudit c) =
          Some \<lparr>targetWeight = 1, ms_iconIds = [icon_id (icons c ! 2)]\<rparr>)
   \<and> (icons c = [a, b, d] \<and> icon_svg a = icon_svg b \<and> iconKey d \<noteq> iconKey a \<longrightarrow>
        duplicates (computeAudit c) =
          [\<lparr>dup_hash = iconKey a, dup_iconIds = [icon_id a, icon_id b]\<rparr>]
        \<and> sum_list (map (\<lambda>g. int (length (dup_iconIds g)) - 1) (duplicates (computeAudit c)))
            = 1)"
proof (intro conjI allI impI)
  show "g \<in> set (duplicates (computeAudit c)) \<longleftrightarrow>
          (\<exists>k. g = \<lparr>dup_hash = k, dup_iconIds = spec_members k c\<rparr>
               \<and> 2 \<le> length (spec_members k c))" for g
    by (rule duplicates_member)
  show "distinct (map dup_hash (duplicates (computeAudit c)))"
    by (rule duplicates_distinct)
  show "mixedStroke (computeAudit c) =
       (if spec_outliers c = [] then None
        else Some \<lparr>targetWeight = spec_mode (spec_weights c), ms_iconIds = spec_outliers c\<rparr>)"
    by (rule mixedStroke_eq)
  show "totalIssues (computeAudit c) =
       sum_list (map (\<lambda>g. int (length (dup_iconIds g)) - 1) (duplicates (computeAudit c)))
       + int (length (spec_outliers c))
       + int (length (offGrid (computeAudit c)))"
    by (rule totalIssues_eq)
  show "mixedStroke (computeAudit c) =
          Some \<lparr>targetWeight = 1, ms_iconIds = [icon_id (icons c ! 2)]\<rparr>"
    if "map strokeWeight (icons c) = [Some 1, Some 1, Some 2]"
    using that by (rule weights_112)
  assume h: "icons c = [a, b, d] \<and> icon_svg a = icon_svg b \<and> iconKey d \<noteq> iconKey a"
  then have h1: "icons c = [a, b, d]" and h2: "icon_svg a = icon_svg b"
    and h3: "iconKey d \<noteq> iconKey a"
    by simp_all
  show g: "duplicates (computeAudit c) =
          [\<lparr>dup_hash = iconKey a, dup_iconIds = [icon_id a, icon_id b]\<rparr>]"
    by (rule three_icons_one_group[OF h1 h2 h3])
  show "sum_list (map (\<lambda>g. int (length (dup_iconIds g)) - 1) (duplicates (computeAudit c))) = 1"
    unfolding g by simp
qed

theorem audit_report_witness:
  "map strokeWeight
     [\<lparr>icon_id = ''A'', icon_name = ''A'', icon_svg = utf16 ''<a/>'', strokeWeight = Some 1,
       gridAligned = None, icon_tags = None\<rparr>,
      \<lparr>icon_id = ''B'', icon_name = ''B'', icon_svg = utf16 ''<a/>'', strokeWeight = Some 1,
       gridAligned = None, icon_tags = None\<rparr>,
      \<lparr>icon_id = ''C'', icon_name = ''C'', icon_svg = utf16 ''<b/>'', strokeWeight = Some 2,
       gridAligned = None, icon_tags = None\<rparr>]
     = [Some 1, Some 1, Some 2]
   \<and> iconKey \<lparr>icon_id = ''C'', icon_name = ''C'', icon_svg = utf16 ''<b/>'',
        strokeWeight = Some 2, gridAligned = None, icon_tags = None\<rparr>
     \<noteq> iconKey \<lparr>icon_id = ''A'', icon_name = ''A'', icon_svg = utf16 ''<a/>'',
        strokeWeight = Some 1, gridAligned = None, icon_tags = None\<rparr>
   \<and> map dup_iconIds (duplicates (computeAudit
        \<lparr>col_id = ''c1'', col_name = ''Arrows'',
         icons =
           [\<lparr>icon_id = ''A'', icon_name = ''A'', icon_svg = utf16 ''<a/>'', strokeWeight = Some 1,
             gridAligned = None, icon_tags = None\<rparr>,
            \<lparr>icon_id = ''B'', icon_name = ''B'', icon_svg = utf16 ''<a/>'', strokeWeight = Some 1,
             gridAligned = None, icon_tags = None\<rparr>,
            \<lparr>icon_id = ''C'', icon_name = ''C'', icon_svg = utf16 ''<b/>'', strokeWeight = Some 2,
             gridAligned = None, icon_tags = None\<rparr>],
         shared = None, collaborators = None, updatedAt = None\<rparr>))
     = [[''A'', ''B'']]
   \<and> mixedStroke (computeAudit
        \<lparr>col_id = ''c1'', col_name = ''Arrows'',
         icons =
           [\<lparr>icon_id = ''A'', icon_name = ''A'', icon_svg = utf16 ''<a/>'', strokeWeight = Some 1,
             gridAligned = None, icon_tags = None\<rparr>,
            \<lparr>icon_id = ''B'', icon_name = ''B'', icon_svg = utf16 ''<a/>'', strokeWeight = Some 1,
             gridAligned = None, icon_tags = None\<rparr>,
            \<lparr>icon_id = ''C'', icon_name = ''C'', icon_svg = utf16 ''<b/>'', strokeWeight = Some 2,
             gridAligned = None, icon_tags = None\<rparr>],
         shared = None, collaborators = None, updatedAt = None\<rparr>)
     = Some \<lparr>targetWeight = 1, ms_iconIds = [''C'']\<rparr>
   \<and> totalIssues (computeAudit
        \<lparr>col_id = ''c1'', col_name = ''Arrows'',
         icons =
           [\<lparr>icon_id = ''A'', icon_name = ''A'', icon_svg = utf16 ''<a/>'', strokeWeight = Some 1,
             gridAligned = None, icon_tags = None\<rparr>,
            \<lparr>icon_id = ''B'', icon_name = ''B'', icon_svg = utf16 ''<a/>'', strokeWeight = Some 1,
             gridAligned = None, icon_tags = None\<rparr>,
            \<lparr>icon_id = ''C'', icon_name = ''C'', icon_svg = utf16 ''<b/>'', strokeWeight = Some 2,
             gridAligned = None, icon_tags = None\<rparr>],
         shared = None, collaborators = None, updatedAt = None\<rparr>)
     = 2"
proof -
  let ?A = "\<lparr>icon_id = ''A'', icon_name = ''A'', icon_svg = utf16 ''<a/>'', strokeWeight = Some 1,
             gridAligned = None, icon_tags = None\<rparr>"
  let ?B = "\<lparr>icon_id = ''B'', icon_name = ''B'', icon_svg = utf16 ''<a/>'', strokeWeight = Some 1,
             gridAligned = None, icon_tags = None\<rparr>"
  let ?C = "\<lparr>icon_id = ''C'', icon_name = ''C'', icon_svg = utf16 ''<b/>'', strokeWeight = Some 2,
             gridAligned = None, icon_tags = None\<rparr>"
  let ?c = "\<lparr>col_id = ''c1'', col_name = ''Arrows'', icons = [?A, ?B, ?C],
             shared = None, collaborators = None, updatedAt = None\<rparr>"
  have w: "map strokeWeight (icons ?c) = [Some 1, Some 1, Some 2]"
    by simp
  have k: "iconKey ?C \<noteq> iconKey ?A"
    by (simp add: iconKey_def hashString_def trim_def is_space_def utf16_def digit_char_def)
  have h: "icons ?c = [?A, ?B, ?C] \<and> icon_svg ?A = icon_svg ?B \<and> iconKey ?C \<noteq> iconKey ?A"
    using k by simp
  have og: "offGrid (computeAudit ?c) = []"
    by (simp add: offGrid_eq)
  from audit_report[of ?c ?A ?B ?C] w h
  have d: "duplicates (computeAudit ?c) =
             [\<lparr>dup_hash = iconKey ?A, dup_iconIds = [icon_id ?A, icon_id ?B]\<rparr>]"
    and m: "mixedStroke (computeAudit ?c) =
             Some \<lparr>targetWeight = 1, ms_iconIds = [icon_id (icons ?c ! 2)]\<rparr>"
    and t: "totalIssues (computeAudit ?c) =
       sum_list (map (\<lambda>g. int (length (dup_iconIds g)) - 1) (duplicates (computeAudit ?c)))
       + int (length (spec_outliers ?c))
       + int (length (offGrid (computeAudit ?c)))"
    and ms: "mixedStroke (computeAudit ?c) =
       (if spec_outliers ?c = [] then None
        else Some \<lparr>targetWeight = spec_mode (spec_weights ?c), ms_iconIds = spec_outliers ?c\<rparr>)"
    by blast+
  from m ms have so: "spec_outliers ?c = [''C'']"
    by (simp split: if_splits)
  have d': "map dup_iconIds (duplicates (computeAudit ?c)) = [[''A'', ''B'']]"
    unfolding d by simp
  have m': "mixedStroke (computeAudit ?c) = Some \<lparr>targetWeight = 1, ms_iconIds = [''C'']\<rparr>"
    unfolding m by simp
  have t': "totalIssues (computeAudit ?c) = 2"
    unfolding t d so og by simp
  from w k d' m' t' show ?thesis
    by simp
qed

theorem audit_duplicates_counterexample:
  "icon_svg \<lparr>icon_id = ''A'', icon_name = ''A'', icon_svg = utf16 ''<g>Aa</g>'',
      strokeWeight = None, gridAligned = None, icon_tags = None\<rparr>
   = icon_svg \<lparr>icon_id = ''B'', icon_name = ''B'', icon_svg = utf16 ''<g>Aa</g>'',
      strokeWeight = None, gridAligned = None, icon_tags = None\<rparr>
   \<and> trim (icon_svg \<lparr>icon_id = ''C'', icon_name = ''C'', icon_svg = utf16 ''<g>BB</g>'',
      strokeWeight = None, gridAligned = None, icon_tags = None\<rparr>)
     \<noteq> trim (icon_svg \<lparr>icon_id = ''A'', icon_name = ''A'', icon_svg = utf16 ''<g>Aa</g>'',
      strokeWeight = None, gridAligned = None, icon_tags = None\<rparr>)
   \<and> map dup_iconIds (duplicates (computeAudit
        \<lparr>col_id = ''c1'', col_name = ''Glyphs'',
         icons =
           [\<lparr>icon_id = ''A'', icon_name = ''A'', icon_svg = utf16 ''<g>Aa</g>'',
             strokeWeight = None, gridAligned = None, icon_tags = None\<rparr>,
            \<lparr>icon_id = ''B'', icon_name = ''B'', icon_svg = utf16 ''<g>Aa</g>'',
             strokeWeight = None, gridAligned = None, icon_tags = None\<rparr>,
            \<lparr>icon_id = ''C'', icon_name = ''C'', icon_svg = utf16 ''<g>BB</g>'',
             strokeWeight = None, gridAligned = None, icon_tags = None\<rparr>],
         shared = None, collaborators = None, updatedAt = None\<rparr>))
     = [[''A'', ''B'', ''C'']]
   \<and> totalIssues (computeAudit
        \<lparr>col_id = ''c1'', col_name = ''Glyphs'',
         icons =
           [\<lparr>icon_id = ''A'', icon_name = ''A'', icon_svg = utf16 ''<g>Aa</g>'',
             strokeWeight = None, gridAligned = None, icon_tags = None\<rparr>,
            \<lparr>icon_id = ''B'', icon_name = ''B'', icon_svg = utf16 ''<g>Aa</g>'',
             strokeWeight = None, gridAligned = None, icon_tags = None\<rparr>,
            \<lparr>icon_id = ''C'', icon_name = ''C'', icon_svg = utf16 ''<g>BB</g>'',
             strokeWeight = None, gridAligned = None, icon_tags = None\<rparr>],
         shared = None, collaborators = None, updatedAt = None\<rparr>)
     = 2"
proof -
  have k: "hashString (trim (utf16 ''<g>Aa</g>'')) = hashString (trim (utf16 ''<g>BB</g>''))"
    by (simp add: hashString_def trim_def is_space_def utf16_def)
  have t: "trim (utf16 ''<g>BB</g>'') \<noteq> trim (utf16 ''<g>Aa</g>'')"
    by (simp add: trim_def is_space_def utf16_def)
  have g: "groupByHash
           [\<lparr>icon_id = ''A'', icon_name = ''A'', icon_svg = utf16 ''<g>Aa</g>'',
             strokeWeight = None, gridAligned = None, icon_tags = None\<rparr>,
            \<lparr>icon_id = ''B'', icon_name = ''B'', icon_svg = utf16 ''<g>Aa</g>'',
             strokeWeight = None, gridAligned = None, icon_tags = None\<rparr>,
            \<lparr>icon_id = ''C'', icon_name = ''C'', icon_svg = utf16 ''<g>BB</g>'',
             strokeWeight = None, gridAligned = None, icon_tags = None\<rparr>]
          = [(hashString (trim (utf16 ''<g>BB</g>'')), [''A'', ''B'', ''C''])]"
    by (simp add: groupByHash_def iconKey_def Let_def k)
  show ?thesis
    using t by (simp add: computeAudit_def Let_def g List.map_filter_simps)
qed

end
